theory Spec2Isabelle
  imports Complex_Main "HOL-Library.List_Lexorder" "HOL-Library.Char_ord"
begin

section \<open>Values of the host language\<close>

text \<open>
  The collections store arbitrary JavaScript values. The model keeps the kinds of value
  the library's code distinguishes: \<open>undefined\<close>, \<open>null\<close>, booleans, numbers,
  strings, and objects, which are known by their reference only. A number is a real
  number (every finite number of the host is one), \<open>NaN\<close>, or one of the two
  infinities (\<open>JInf True\<close> is \<open>Infinity\<close>). A string is the list of its code units.
\<close>

datatype jsval =
    JUndefined
  | JNull
  | JBool bool
  | JNum real
  | JNaN
  | JInf bool
  | JStr string
  | JObj nat

text \<open>\<open>a === b\<close>: same kind and same value; \<open>NaN\<close> is not equal to itself.\<close>

definition strict_eq :: "jsval \<Rightarrow> jsval \<Rightarrow> bool" where
  "strict_eq a b = (a = b \<and> a \<noteq> JNaN)"

text \<open>The truth value of a value in a condition (\<open>if (item)\<close>).\<close>

fun truthy :: "jsval \<Rightarrow> bool" where
  "truthy JUndefined = False"
| "truthy JNull = False"
| "truthy (JBool b) = b"
| "truthy (JNum n) = (n \<noteq> 0)"
| "truthy JNaN = False"
| "truthy (JInf s) = True"
| "truthy (JStr s) = (s \<noteq> [])"
| "truthy (JObj r) = True"

section \<open>Arrays of the host language\<close>

text \<open>\<open>a[i]\<close>: reading outside the array gives \<open>undefined\<close>.\<close>

definition array_get :: "jsval list \<Rightarrow> int \<Rightarrow> jsval" where
  "array_get a i = (if 0 \<le> i \<and> i < int (length a) then a ! nat i else JUndefined)"

text \<open>
  \<open>a[i] = v\<close>: writing at or beyond the length extends the array (the positions in
  between read as \<open>undefined\<close>); a negative index is not an element of the array.
\<close>

definition array_set :: "jsval list \<Rightarrow> int \<Rightarrow> jsval \<Rightarrow> jsval list" where
  "array_set a i v =
     (if i < 0 then a
      else if i < int (length a) then a[nat i := v]
      else a @ replicate (nat i - length a) JUndefined @ [v])"

text \<open>
  \<open>a.splice(start, deleteCount, items...)\<close>: a negative start counts from the end, both
  numbers are clamped to the array; the result is the removed items and the new array.
\<close>

definition rel_index :: "int \<Rightarrow> nat \<Rightarrow> nat" where
  "rel_index i len = (if i < 0 then nat (max (int len + i) 0) else min (nat i) len)"

definition splice :: "jsval list \<Rightarrow> int \<Rightarrow> int \<Rightarrow> jsval list \<Rightarrow> jsval list \<times> jsval list" where
  "splice a start deleteCount ins =
     (let s = rel_index start (length a);
          d = min (nat (max deleteCount 0)) (length a - s)
      in (take d (drop s a), take s a @ ins @ drop (s + d) a))"

text \<open>
  \<open>a.slice(start, end)\<close>: both ends count from the end when negative and are clamped
  to the array; a missing end is the length.
\<close>

definition slice :: "jsval list \<Rightarrow> int \<Rightarrow> int option \<Rightarrow> jsval list" where
  "slice a start end' =
     (let k = rel_index start (length a);
          e = (case end' of None \<Rightarrow> length a | Some j \<Rightarrow> rel_index j (length a))
      in take (e - k) (drop k a))"

section \<open>List\<close>

text \<open>
  A List owns one array, \<open>items\<close>. A method that mutates the list is a function from the
  items before the call to the outcome of the call and the items after it; a thrown
  \<open>Error\<close> is the outcome \<open>Inl\<close>.
\<close>

datatype error =
    IllegalInsertion int int
  | TypeError

definition size_of :: "jsval list \<Rightarrow> int" where
  "size_of items = int (length items)"

definition assertRange :: "jsval list \<Rightarrow> int \<Rightarrow> error + unit" where
  "assertRange items index =
     (if index < 0 \<or> index > size_of items
      then Inl (IllegalInsertion index (size_of items - 1))
      else Inr ())"

definition addAt :: "jsval \<Rightarrow> int \<Rightarrow> jsval list \<Rightarrow> (error + unit) \<times> jsval list" where
  "addAt item index items =
     (case assertRange items index of
        Inl e \<Rightarrow> (Inl e, items)
      | Inr _ \<Rightarrow> (Inr (), snd (splice items index 0 [item])))"

definition update :: "int \<Rightarrow> jsval \<Rightarrow> jsval list \<Rightarrow> (error + unit) \<times> jsval list" where
  "update index item items =
     (case assertRange items index of
        Inl e \<Rightarrow> (Inl e, items)
      | Inr _ \<Rightarrow>
          (let previousItem = array_get items index
           in if \<not> strict_eq previousItem item
              then (Inr (), array_set items index item)
              else (Inr (), items)))"

section \<open>Conversions and comparisons of the host language\<close>

text \<open>
  Four primitives of the host are parameters of the model, so that what is proved holds
  whatever they compute: the number a string stands for (a number, \<open>NaN\<close> included),
  the string of a finite number, \<open>String.prototype.toUpperCase\<close> and
  \<open>String.prototype.localeCompare\<close>.
\<close>

record host =
  string_to_number :: "string \<Rightarrow> jsval"
  number_to_string :: "real \<Rightarrow> string"
  upper_case :: "string \<Rightarrow> string"
  locale_compare :: "string \<Rightarrow> string \<Rightarrow> int"

text \<open>
  Objects are plain objects: converted to a primitive value they give the string
  \<open>[object Object]\<close>. Every other value is primitive already.
\<close>

definition to_primitive :: "jsval \<Rightarrow> jsval" where
  "to_primitive v = (case v of JObj r \<Rightarrow> JStr ''[object Object]'' | _ \<Rightarrow> v)"

text \<open>\<open>ToNumber\<close>: the result is a number, \<open>NaN\<close> or an infinity.\<close>

fun to_number :: "host \<Rightarrow> jsval \<Rightarrow> jsval" where
  "to_number H JUndefined = JNaN"
| "to_number H JNull = JNum 0"
| "to_number H (JBool b) = JNum (if b then 1 else 0)"
| "to_number H (JNum n) = JNum n"
| "to_number H JNaN = JNaN"
| "to_number H (JInf s) = JInf s"
| "to_number H (JStr s) = string_to_number H s"
| "to_number H (JObj r) = string_to_number H ''[object Object]''"

text \<open>The order of two numbers; a comparison with \<open>NaN\<close> is false.\<close>

fun num_lt :: "jsval \<Rightarrow> jsval \<Rightarrow> bool" where
  "num_lt (JNum a) (JNum b) = (a < b)"
| "num_lt (JNum a) (JInf t) = t"
| "num_lt (JInf s) (JNum b) = (\<not> s)"
| "num_lt (JInf s) (JInf t) = (\<not> s \<and> t)"
| "num_lt a b = False"

text \<open>\<open>ToString\<close>.\<close>

fun to_string :: "host \<Rightarrow> jsval \<Rightarrow> string" where
  "to_string H JUndefined = ''undefined''"
| "to_string H JNull = ''null''"
| "to_string H (JBool b) = (if b then ''true'' else ''false'')"
| "to_string H (JNum n) = number_to_string H n"
| "to_string H JNaN = ''NaN''"
| "to_string H (JInf s) = (if s then ''Infinity'' else ''-Infinity'')"
| "to_string H (JStr s) = s"
| "to_string H (JObj r) = ''[object Object]''"

text \<open>Strings compare by their code units, the shorter of two equal beginnings first.\<close>

fun str_lt :: "string \<Rightarrow> string \<Rightarrow> bool" where
  "str_lt [] [] = False"
| "str_lt [] (y # ys) = True"
| "str_lt (x # xs) [] = False"
| "str_lt (x # xs) (y # ys) =
     ((of_char x :: nat) < of_char y \<or> (x = y \<and> str_lt xs ys))"

text \<open>
  \<open>a < b\<close>: two strings compare as strings, any other pair as numbers. \<open>a > b\<close> is
  \<open>b < a\<close>.
\<close>

definition js_lt :: "host \<Rightarrow> jsval \<Rightarrow> jsval \<Rightarrow> bool" where
  "js_lt H a b =
     (case (to_primitive a, to_primitive b) of
        (JStr s, JStr t) \<Rightarrow> str_lt s t
      | (p, q) \<Rightarrow> num_lt (to_number H p) (to_number H q))"

text \<open>
  \<open>a == b\<close>: values of one kind compare as with \<open>===\<close>; \<open>null\<close> and \<open>undefined\<close>
  equal each other and nothing else; otherwise booleans become numbers, objects become
  primitive, and a number and a string compare as numbers.
\<close>

fun kind_of :: "jsval \<Rightarrow> nat" where
  "kind_of JUndefined = 0"
| "kind_of JNull = 1"
| "kind_of (JBool b) = 2"
| "kind_of (JNum n) = 3"
| "kind_of JNaN = 3"
| "kind_of (JInf s) = 3"
| "kind_of (JStr s) = 4"
| "kind_of (JObj r) = 5"

definition nullish :: "jsval \<Rightarrow> bool" where
  "nullish v = (v = JNull \<or> v = JUndefined)"

definition bool_to_number :: "jsval \<Rightarrow> jsval" where
  "bool_to_number v = (case v of JBool b \<Rightarrow> JNum (if b then 1 else 0) | _ \<Rightarrow> v)"

definition loose_eq :: "host \<Rightarrow> jsval \<Rightarrow> jsval \<Rightarrow> bool" where
  "loose_eq H a b =
     (if kind_of a = kind_of b then strict_eq a b
      else if nullish a \<and> nullish b then True
      else if nullish a \<or> nullish b then False
      else (case (to_primitive (bool_to_number a), to_primitive (bool_to_number b)) of
              (JStr s, JStr t) \<Rightarrow> s = t
            | (p, q) \<Rightarrow>
                kind_of (to_number H p) = 3 \<and> strict_eq (to_number H p) (to_number H q)))"

text \<open>\<open>s.toUpperCase()\<close>: only a string has the method.\<close>

definition toUpperCase :: "host \<Rightarrow> jsval \<Rightarrow> error + jsval" where
  "toUpperCase H v =
     (case v of JStr s \<Rightarrow> Inr (JStr (upper_case H s)) | _ \<Rightarrow> Inl TypeError)"

text \<open>
  For the examples, whose strings are of ASCII characters: on such a string
  \<open>toUpperCase\<close> raises the letters a to z and leaves the other characters. On other
  strings the host's function does more (it raises \<open>U+00E9\<close> to \<open>U+00C9\<close>), which is why
  it is a parameter of the model and \<open>ascii_upper\<close> is used in no definition.
\<close>

definition ascii_upper :: "string \<Rightarrow> string" where
  "ascii_upper s =
     map (\<lambda>c. let n = (of_char c :: nat) in if 97 \<le> n \<and> n \<le> 122 then char_of (n - 32) else c) s"

section \<open>List: removal by predicate and sorted insertion\<close>

text \<open>
  \<open>removeIf\<close>: the loop reads the length once, before the first pass, and compares the
  counter with that number to the end. A removal takes one item out of the array and
  steps the counter back, so that the next pass looks at the same position. The loop may
  run forever, so its model is a partial function: \<open>None\<close> is a call that never returns.
  A predicate is known by the truth value of its result. Besides the removed items and
  the items left, the model records the arguments the predicate was called with.
\<close>

partial_function (option) removeIf_loop ::
  "(jsval \<Rightarrow> bool) \<Rightarrow> int \<Rightarrow> int \<Rightarrow> jsval list \<Rightarrow> jsval list \<Rightarrow> jsval list
     \<Rightarrow> (jsval list \<times> jsval list \<times> jsval list) option" where
  "removeIf_loop predicate len i items removed calls =
     (if i < len
      then (if predicate (array_get items i)
            then removeIf_loop predicate len ((i - 1) + 1)
                   (snd (splice items i 1 [])) (removed @ [array_get items i])
                   (calls @ [array_get items i])
            else removeIf_loop predicate len (i + 1) items removed
                   (calls @ [array_get items i]))
      else Some (removed, items, calls))"

declare removeIf_loop.simps [code]

definition removeIf ::
  "(jsval \<Rightarrow> bool) \<Rightarrow> jsval list \<Rightarrow> (jsval list \<times> jsval list \<times> jsval list) option" where
  "removeIf predicate items = removeIf_loop predicate (int (length items)) 0 items [] []"

text \<open>
  The states of the loop from which it cannot return: the array has become shorter than
  the length read at the start, and the predicate holds of \<open>undefined\<close>.
\<close>

definition shrunk :: "(jsval \<Rightarrow> bool) \<Rightarrow> int \<Rightarrow> int \<Rightarrow> jsval list \<Rightarrow> bool" where
  "shrunk predicate len i items =
     (0 \<le> i \<and> i \<le> int (length items) \<and> int (length items) < len \<and> predicate JUndefined)"

text \<open>
  \<open>insert\<close>: a comparator is a function to a number of which the loop reads the sign.
  \<open>(low + high) >> 1\<close> takes the sum as a 32-bit signed integer first.
\<close>

definition defaultSortFunction :: "host \<Rightarrow> jsval \<Rightarrow> jsval \<Rightarrow> int" where
  "defaultSortFunction H a b = (if js_lt H a b then - 1 else if js_lt H b a then 1 else 0)"

definition to_int32 :: "int \<Rightarrow> int" where
  "to_int32 n = (n + 2 ^ 31) mod 2 ^ 32 - 2 ^ 31"

definition shr1 :: "int \<Rightarrow> int" where
  "shr1 n = to_int32 n div 2"

partial_function (option) insert_loop ::
  "(jsval \<Rightarrow> jsval \<Rightarrow> int) \<Rightarrow> jsval \<Rightarrow> jsval list \<Rightarrow> int \<Rightarrow> int \<Rightarrow> int option" where
  "insert_loop sortFunction item items low high =
     (if low < high
      then (let mid = shr1 (low + high)
            in if sortFunction item (array_get items mid) > 0
               then insert_loop sortFunction item items (mid + 1) high
               else insert_loop sortFunction item items low mid)
      else Some low)"

declare insert_loop.simps [code]

definition insert_item ::
  "host \<Rightarrow> jsval \<Rightarrow> (jsval \<Rightarrow> jsval \<Rightarrow> int) option \<Rightarrow> jsval list
     \<Rightarrow> ((error + unit) \<times> jsval list) option" where
  "insert_item H item sortFunction items =
     (let sortFunction = (case sortFunction of None \<Rightarrow> defaultSortFunction H | Some f \<Rightarrow> f)
      in case insert_loop sortFunction item items 0 (size_of items) of
           None \<Rightarrow> None
         | Some low \<Rightarrow> Some (addAt item low items))"




section \<open>Iterable: the read-only methods, on the items\<close>

text \<open>
  A method of Iterable reads the receiver's array \<open>items\<close> and builds the array of the
  collection it returns. A callback is a function of the item and of the extra argument
  \<open>_invoke\<close> passes on (\<open>undefined\<close> where the caller gives none). A loop
  \<open>for (i = 0, length = items.length; i < length; i++)\<close> is a fold over the indices.
\<close>

definition invoke :: "(jsval \<Rightarrow> jsval \<Rightarrow> 'a) \<Rightarrow> jsval list \<Rightarrow> int \<Rightarrow> jsval \<Rightarrow> 'a" where
  "invoke func items forIndex extraParam = func (array_get items forIndex) extraParam"

text \<open>The marker \<open>Collection.NOT_MAPPED = {}\<close>: an object of its own.\<close>

definition NOT_MAPPED :: jsval where
  "NOT_MAPPED = JObj 0"

definition map_items ::
  "host \<Rightarrow> (jsval \<Rightarrow> jsval \<Rightarrow> jsval) \<Rightarrow> jsval list \<Rightarrow> jsval list" where
  "map_items H callback items =
     fold (\<lambda>i result.
             let mapped = invoke callback items (int i) JUndefined
             in if \<not> loose_eq H mapped NOT_MAPPED then result @ [mapped] else result)
          [0..<length items] []"

definition drop_items :: "int \<Rightarrow> jsval list \<Rightarrow> jsval list" where
  "drop_items n items = (let n = min n (int (length items)) in slice items n None)"

definition dropRight :: "int \<Rightarrow> jsval list \<Rightarrow> jsval list" where
  "dropRight n items =
     (let n = min n (int (length items)) in slice items 0 (Some (int (length items) - n)))"

definition take_items :: "int \<Rightarrow> jsval list \<Rightarrow> jsval list" where
  "take_items n items = (let n = min n (int (length items)) in slice items 0 (Some n))"

definition takeRight :: "int \<Rightarrow> jsval list \<Rightarrow> jsval list" where
  "takeRight n items = (let n = min n (int (length items)) in slice items (- n) None)"


subsection \<open>sorted\<close>

text \<open>
  The options, after the defaults are filled in: \<open>by\<close> is the extractor (a property path
  has been turned into its function), the other three are read as truth values.
\<close>

record options =
  "by" :: "(jsval \<Rightarrow> jsval) option"
  localeCompare :: bool
  ignoreCase :: bool
  reverse :: bool

record entry =
  index :: nat
  "value" :: jsval

text \<open>
  The first loop: the sort value of an item is the item or, with an extractor and a truthy
  item, what the extractor gives. Sort values \<open>null\<close>, \<open>undefined\<close> and \<open>''\<close> go to
  \<open>missingData\<close>, the others to \<open>mapped\<close> with the index of their item.
\<close>

fun sorted_scan ::
  "host \<Rightarrow> (jsval \<Rightarrow> jsval) option \<Rightarrow> bool \<Rightarrow> nat \<Rightarrow> jsval list \<Rightarrow> entry list \<Rightarrow> jsval list
     \<Rightarrow> error + (entry list \<times> jsval list)" where
  "sorted_scan H by' ignoreCase' i [] mapped missingData = Inr (mapped, missingData)"
| "sorted_scan H by' ignoreCase' i (x # rest) mapped missingData =
     (let item = (case by' of
                    Some f \<Rightarrow> if truthy x then f x else x
                  | None \<Rightarrow> x)
      in if item = JNull \<or> item = JUndefined \<or> item = JStr []
         then sorted_scan H by' ignoreCase' (i + 1) rest mapped (missingData @ [item])
         else if ignoreCase'
         then (case toUpperCase H item of
                 Inl e \<Rightarrow> Inl e
               | Inr u \<Rightarrow>
                   sorted_scan H by' ignoreCase' (i + 1) rest
                     (mapped @ [\<lparr>index = i, value = u\<rparr>]) missingData)
         else sorted_scan H by' ignoreCase' (i + 1) rest
                (mapped @ [\<lparr>index = i, value = item\<rparr>]) missingData)"

text \<open>
  The two comparison functions. \<open>a.value.localeCompare(b.value)\<close> exists for a string
  \<open>a.value\<close> only, and takes its argument as a string.
\<close>

definition sortFunction :: "host \<Rightarrow> bool \<Rightarrow> entry \<Rightarrow> entry \<Rightarrow> error + int" where
  "sortFunction H localeCompare' a b =
     (if localeCompare'
      then (if \<not> strict_eq (value a) (value b)
            then (case value a of
                    JStr s \<Rightarrow> Inr (locale_compare H s (to_string H (value b)))
                  | _ \<Rightarrow> Inl TypeError)
            else Inr (if index a < index b then - 1 else 1))
      else (if \<not> strict_eq (value a) (value b)
            then Inr (if js_lt H (value a) (value b) then - 1 else 1)
            else Inr (if index a < index b then - 1 else 1)))"

text \<open>
  \<open>Array.prototype.sort\<close> with a comparison function: a stable insertion sort, which
  puts an element before the first one it does not compare greater than. Where the
  comparison function orders the elements, every sort gives this order. An error of the
  comparison function ends the sort.
\<close>

fun sort_insert :: "('a \<Rightarrow> 'a \<Rightarrow> error + int) \<Rightarrow> 'a \<Rightarrow> 'a list \<Rightarrow> error + 'a list" where
  "sort_insert cmp x [] = Inr [x]"
| "sort_insert cmp x (y # ys) =
     (case cmp x y of
        Inl e \<Rightarrow> Inl e
      | Inr c \<Rightarrow>
          if c \<le> 0 then Inr (x # y # ys)
          else (case sort_insert cmp x ys of Inl e \<Rightarrow> Inl e | Inr r \<Rightarrow> Inr (y # r)))"

fun array_sort :: "('a \<Rightarrow> 'a \<Rightarrow> error + int) \<Rightarrow> 'a list \<Rightarrow> error + 'a list" where
  "array_sort cmp [] = Inr []"
| "array_sort cmp (x # xs) =
     (case array_sort cmp xs of Inl e \<Rightarrow> Inl e | Inr s \<Rightarrow> sort_insert cmp x s)"

definition sorted_items :: "host \<Rightarrow> options \<Rightarrow> jsval list \<Rightarrow> error + jsval list" where
  "sorted_items H opts items =
     (case sorted_scan H (by opts) (ignoreCase opts) 0 items [] [] of
        Inl e \<Rightarrow> Inl e
      | Inr (mapped, missingData) \<Rightarrow>
          (case array_sort (sortFunction H (localeCompare opts)) mapped of
             Inl e \<Rightarrow> Inl e
           | Inr mapped \<Rightarrow>
               (let result = map (\<lambda>m. array_get items (int (index m))) mapped;
                    result = (if missingData \<noteq> [] then result @ missingData else result);
                    result = (if reverse opts then rev result else result)
                in Inr result)))"

subsection \<open>The algorithm of the specification for sorted\<close>

text \<open>
  The definitions of this subsection follow the specification's words, not the code.
  A sort value is missing when it is \<open>null\<close>, \<open>undefined\<close> or the empty string.
\<close>

definition missing :: "jsval \<Rightarrow> bool" where
  "missing v = (v = JNull \<or> v = JUndefined \<or> v = JStr [])"

text \<open>Step 1: the sort value of an item, with the extractor used on truthy items only.\<close>

definition sort_value :: "(jsval \<Rightarrow> jsval) option \<Rightarrow> jsval \<Rightarrow> jsval" where
  "sort_value by' x = (case by' of Some f \<Rightarrow> if truthy x then f x else x | None \<Rightarrow> x)"

text \<open>Step 3: with \<open>ignoreCase\<close>, a string sort value is compared in upper case.\<close>

definition compare_value :: "host \<Rightarrow> bool \<Rightarrow> jsval \<Rightarrow> jsval" where
  "compare_value H ignoreCase' v =
     (if ignoreCase' then (case v of JStr s \<Rightarrow> JStr (upper_case H s) | _ \<Rightarrow> v) else v)"







definition missing_values :: "options \<Rightarrow> jsval list \<Rightarrow> jsval list" where
  "missing_values opts items = filter missing (map (sort_value (by opts)) items)"




text \<open>
  What the first loop has in \<open>mapped\<close> after it has run over \<open>xs\<close> from index
  \<open>i\<close> on, and the entry it makes for the item at one position.
\<close>

definition entry_at ::
  "host \<Rightarrow> (jsval \<Rightarrow> jsval) option \<Rightarrow> bool \<Rightarrow> nat \<times> jsval \<Rightarrow> entry" where
  "entry_at H by' ic p = \<lparr>index = fst p, value = compare_value H ic (sort_value by' (snd p))\<rparr>"

definition entries_from ::
  "host \<Rightarrow> (jsval \<Rightarrow> jsval) option \<Rightarrow> bool \<Rightarrow> nat \<Rightarrow> jsval list \<Rightarrow> entry list" where
  "entries_from H by' ic i xs =
     map (entry_at H by' ic)
       (filter (\<lambda>p. \<not> missing (sort_value by' (snd p))) (zip [i..<i + length xs] xs))"



subsection \<open>The other read-only methods\<close>

text \<open>
  A predicate is a callback whose result is read as a truth value. A loop that returns
  or breaks before the last index is a recursion over the indices left.
\<close>

definition each_items :: "(jsval \<Rightarrow> jsval \<Rightarrow> jsval) \<Rightarrow> jsval list \<Rightarrow> jsval list" where
  "each_items callback items =
     fold (\<lambda>i called. called @ [invoke callback items (int i) (JNum (real i))])
          [0..<length items] []"

definition filter_items :: "(jsval \<Rightarrow> jsval \<Rightarrow> jsval) \<Rightarrow> jsval list \<Rightarrow> jsval list" where
  "filter_items predicate items =
     fold (\<lambda>i result.
             if truthy (invoke predicate items (int i) JUndefined)
             then result @ [array_get items (int i)] else result)
          [0..<length items] []"

definition count_items :: "(jsval \<Rightarrow> jsval \<Rightarrow> jsval) \<Rightarrow> jsval list \<Rightarrow> int" where
  "count_items predicate items =
     fold (\<lambda>i count.
             if truthy (invoke predicate items (int i) JUndefined) then count + 1 else count)
          [0..<length items] 0"

fun find_loop :: "(jsval \<Rightarrow> jsval \<Rightarrow> jsval) \<Rightarrow> jsval list \<Rightarrow> nat list \<Rightarrow> jsval" where
  "find_loop predicate items [] = JUndefined"
| "find_loop predicate items (i # rest) =
     (if truthy (invoke predicate items (int i) JUndefined) then array_get items (int i)
      else find_loop predicate items rest)"

definition find_items :: "(jsval \<Rightarrow> jsval \<Rightarrow> jsval) \<Rightarrow> jsval list \<Rightarrow> jsval" where
  "find_items predicate items = find_loop predicate items [0..<length items]"

fun some_loop :: "(jsval \<Rightarrow> jsval \<Rightarrow> jsval) \<Rightarrow> jsval list \<Rightarrow> nat list \<Rightarrow> bool" where
  "some_loop predicate items [] = False"
| "some_loop predicate items (i # rest) =
     (if truthy (invoke predicate items (int i) JUndefined) then True
      else some_loop predicate items rest)"

definition some_items :: "(jsval \<Rightarrow> jsval \<Rightarrow> jsval) \<Rightarrow> jsval list \<Rightarrow> bool" where
  "some_items predicate items = some_loop predicate items [0..<length items]"

fun every_loop :: "(jsval \<Rightarrow> jsval \<Rightarrow> jsval) \<Rightarrow> jsval list \<Rightarrow> nat list \<Rightarrow> bool" where
  "every_loop predicate items [] = True"
| "every_loop predicate items (i # rest) =
     (if \<not> truthy (invoke predicate items (int i) JUndefined) then False
      else every_loop predicate items rest)"

definition every_items :: "(jsval \<Rightarrow> jsval \<Rightarrow> jsval) \<Rightarrow> jsval list \<Rightarrow> bool" where
  "every_items predicate items = every_loop predicate items [0..<length items]"

text \<open>
  \<open>grouped\<close>: the array \<open>current\<close> is closed into a group when it has \<open>size\<close> items or
  at the last index; the result here is the arrays of the groups.
\<close>

definition grouped_items :: "jsval \<Rightarrow> jsval list \<Rightarrow> jsval list list" where
  "grouped_items size' items =
     fst (fold (\<lambda>i (groups, current).
                  let current = current @ [array_get items (int i)]
                  in if strict_eq (JNum (real (length current))) size'
                        \<or> int i = int (length items) - 1
                     then (groups @ [current], [])
                     else (groups, current))
               [0..<length items] ([], []))"

definition fold_items ::
  "jsval \<Rightarrow> (jsval \<Rightarrow> jsval \<Rightarrow> jsval) \<Rightarrow> jsval list \<Rightarrow> jsval" where
  "fold_items initialValue operator items =
     fold (\<lambda>i result. invoke operator items (int i) result) [0..<length items] initialValue"

definition partition_items ::
  "(jsval \<Rightarrow> jsval \<Rightarrow> jsval) \<Rightarrow> jsval list \<Rightarrow> jsval list \<times> jsval list" where
  "partition_items predicate items =
     fold (\<lambda>i (yes, no).
             if truthy (invoke predicate items (int i) JUndefined)
             then (yes @ [array_get items (int i)], no)
             else (yes, no @ [array_get items (int i)]))
          [0..<length items] ([], [])"

text \<open>
  \<open>dropWhile\<close>: \<open>result\<close> is a copy of the items, which loses its first item for as
  long as the predicate holds of the receiver's item at \<open>index\<close>.
\<close>

fun dropWhile_loop ::
  "(jsval \<Rightarrow> jsval \<Rightarrow> jsval) \<Rightarrow> jsval list \<Rightarrow> jsval list \<Rightarrow> int \<Rightarrow> jsval list" where
  "dropWhile_loop predicate items [] index' = []"
| "dropWhile_loop predicate items (r # result) index' =
     (if truthy (invoke predicate items index' JUndefined)
      then dropWhile_loop predicate items result (index' + 1)
      else r # result)"

definition dropWhile_items :: "(jsval \<Rightarrow> jsval \<Rightarrow> jsval) \<Rightarrow> jsval list \<Rightarrow> jsval list" where
  "dropWhile_items predicate items = dropWhile_loop predicate items (slice items 0 None) 0"

fun takeWhile_loop ::
  "(jsval \<Rightarrow> jsval \<Rightarrow> jsval) \<Rightarrow> jsval list \<Rightarrow> nat list \<Rightarrow> jsval list \<Rightarrow> jsval list" where
  "takeWhile_loop predicate items [] result = result"
| "takeWhile_loop predicate items (i # rest) result =
     (if truthy (invoke predicate items (int i) JUndefined)
      then takeWhile_loop predicate items rest (result @ [array_get items (int i)])
      else result)"

definition takeWhile_items :: "(jsval \<Rightarrow> jsval \<Rightarrow> jsval) \<Rightarrow> jsval list \<Rightarrow> jsval list" where
  "takeWhile_items predicate items = takeWhile_loop predicate items [0..<length items] []"

text \<open>
  \<open>a.join(sep)\<close>: \<open>null\<close> and \<open>undefined\<close> give the empty string, other items their
  string.
\<close>

definition join_item :: "host \<Rightarrow> jsval \<Rightarrow> string" where
  "join_item H v = (if nullish v then [] else to_string H v)"

fun join :: "host \<Rightarrow> jsval list \<Rightarrow> string \<Rightarrow> string" where
  "join H [] sep = []"
| "join H [x] sep = join_item H x"
| "join H (x # y # rest) sep = join_item H x @ sep @ join H (y # rest) sep"

definition mkString :: "host \<Rightarrow> string \<Rightarrow> string \<Rightarrow> string \<Rightarrow> jsval list \<Rightarrow> string" where
  "mkString H start sep end' items = start @ join H items sep @ end'"

text \<open>
  Modelled from the spec: the Map that \<open>groupBy\<close> fills is not among the sources. With
  the default keying, \<open>get\<close> finds the entry of the same key and \<open>put\<close> replaces its
  value or appends a new entry. The value of a group here is the array of its List.
\<close>

definition map_put :: "(jsval \<times> 'v) list \<Rightarrow> jsval \<Rightarrow> 'v \<Rightarrow> (jsval \<times> 'v) list" where
  "map_put m k v =
     (if k \<in> fst ` set m then map (\<lambda>(k', v'). if k' = k then (k', v) else (k', v')) m
      else m @ [(k, v)])"

definition groupBy_items ::
  "(jsval \<Rightarrow> jsval \<Rightarrow> jsval) \<Rightarrow> jsval list \<Rightarrow> (jsval \<times> jsval list) list" where
  "groupBy_items discriminator items =
     fold (\<lambda>i groups.
             let item = array_get items (int i);
                 itemGroup = invoke discriminator items (int i) JUndefined;
                 group = map_of groups itemGroup;
                 groups = (if group = None then map_put groups itemGroup [] else groups)
             in map_put groups itemGroup
                  ((case map_of groups itemGroup of None \<Rightarrow> [] | Some g \<Rightarrow> g) @ [item]))
          [0..<length items] []"

section \<open>Collections as objects in a store\<close>

text \<open>
  Whether two collections share their array is a matter of references. The store is the
  list of the objects made so far; the reference of an object is its place in the list,
  so that a new object has a reference no older object has. An Iterable is an object with
  the reference of its array in \<open>items\<close>; it is a List, or the \<open>SimpleIterable\<close> of the
  library's tests, whose \<open>_createNew\<close> takes the array it is given as the items of the
  new collection. Callbacks are functions of their arguments and do not write to the
  store.
\<close>

datatype kind = ListKind | SimpleIterable

datatype obj =
    ArrayObj "jsval list"
  | IterableObj kind nat
  | MapObj "(jsval \<times> nat) list"
  | PlainObj "(string \<times> jsval) list"

type_synonym store = "obj list"

definition alloc :: "obj \<Rightarrow> store \<Rightarrow> nat \<times> store" where
  "alloc ob h = (length h, h @ [ob])"

definition array_of :: "store \<Rightarrow> nat \<Rightarrow> jsval list" where
  "array_of h a =
     (if a < length h then (case h ! a of ArrayObj xs \<Rightarrow> xs | _ \<Rightarrow> []) else [])"

definition items_ref :: "store \<Rightarrow> nat \<Rightarrow> nat" where
  "items_ref h this =
     (if this < length h then (case h ! this of IterableObj k a \<Rightarrow> a | _ \<Rightarrow> 0) else 0)"

definition kind_of_this :: "store \<Rightarrow> nat \<Rightarrow> kind" where
  "kind_of_this h this =
     (if this < length h then (case h ! this of IterableObj k a \<Rightarrow> k | _ \<Rightarrow> ListKind)
      else ListKind)"

definition items_of :: "store \<Rightarrow> nat \<Rightarrow> jsval list" where
  "items_of h this = array_of h (items_ref h this)"

text \<open>
  The array primitives that make an array (\<open>slice\<close>, a literal filled by \<open>push\<close>) and
  those that change one in place (\<open>reverse\<close>).
\<close>

definition new_array :: "jsval list \<Rightarrow> store \<Rightarrow> nat \<times> store" where
  "new_array xs h = alloc (ArrayObj xs) h"

definition array_slice :: "nat \<Rightarrow> int \<Rightarrow> int option \<Rightarrow> store \<Rightarrow> nat \<times> store" where
  "array_slice a start end' h = new_array (slice (array_of h a) start end') h"

definition array_reverse :: "nat \<Rightarrow> store \<Rightarrow> nat \<times> store" where
  "array_reverse a h = (a, if a < length h then h[a := ArrayObj (rev (array_of h a))] else h)"

definition array_write :: "nat \<Rightarrow> jsval list \<Rightarrow> store \<Rightarrow> store" where
  "array_write a xs h = (if a < length h then h[a := ArrayObj xs] else h)"

text \<open>
  Modelled from the spec: \<open>cloneArray\<close> and the constructor that \<open>createType\<close> makes are
  not among the sources. A List made from an array (\<open>List.fromArray\<close>, which passes the
  items to \<open>_init\<close> as arguments) has a fresh copy of the items, and \<open>toArray\<close> gives a
  fresh copy.
\<close>

definition cloneArray :: "nat \<Rightarrow> store \<Rightarrow> nat \<times> store" where
  "cloneArray a h = new_array (array_of h a) h"

definition List_fromArray :: "nat \<Rightarrow> store \<Rightarrow> nat \<times> store" where
  "List_fromArray array h =
     (let (items, h) = cloneArray array h in alloc (IterableObj ListKind items) h)"

definition createNew :: "nat \<Rightarrow> nat \<Rightarrow> store \<Rightarrow> nat \<times> store" where
  "createNew this array h =
     (case kind_of_this h this of
        ListKind \<Rightarrow> List_fromArray array h
      | SimpleIterable \<Rightarrow> alloc (IterableObj SimpleIterable array) h)"

text \<open>
  A method that builds its result in a local array and hands it to \<open>_createNew\<close>: the
  local array is a new object with the items computed.
\<close>

definition create_from :: "nat \<Rightarrow> jsval list \<Rightarrow> store \<Rightarrow> nat \<times> store" where
  "create_from this xs h = (let (result, h) = new_array xs h in createNew this result h)"

fun create_all :: "nat \<Rightarrow> jsval list list \<Rightarrow> store \<Rightarrow> nat list \<times> store" where
  "create_all this [] h = ([], h)"
| "create_all this (xs # rest) h =
     (let (c, h) = create_from this xs h; (cs, h) = create_all this rest h in (c # cs, h))"

text \<open>
  \<open>getPluckFunction\<close>: the path is split at the dots. Reading a property of \<open>null\<close> or
  \<open>undefined\<close> throws; a plain object has the properties it was given, an Iterable has
  \<open>items\<close>, an array and a string have \<open>length\<close>, and no other property is in the
  model.
\<close>

fun split_path :: "string \<Rightarrow> string \<Rightarrow> string list" where
  "split_path [] current = [current]"
| "split_path (c # cs) current =
     (if c = CHR ''.'' then current # split_path cs [] else split_path cs (current @ [c]))"

definition get_property :: "store \<Rightarrow> jsval \<Rightarrow> string \<Rightarrow> error + jsval" where
  "get_property h v name =
     (case v of
        JNull \<Rightarrow> Inl TypeError
      | JUndefined \<Rightarrow> Inl TypeError
      | JObj r \<Rightarrow>
          (if r < length h
           then (case h ! r of
                   PlainObj ps \<Rightarrow> Inr (case map_of ps name of Some x \<Rightarrow> x | None \<Rightarrow> JUndefined)
                 | IterableObj k a \<Rightarrow> Inr (if name = ''items'' then JObj a else JUndefined)
                 | ArrayObj xs \<Rightarrow>
                     Inr (if name = ''length'' then JNum (real (length xs)) else JUndefined)
                 | _ \<Rightarrow> Inr JUndefined)
           else Inr JUndefined)
      | JStr s \<Rightarrow> Inr (if name = ''length'' then JNum (real (length s)) else JUndefined)
      | _ \<Rightarrow> Inr JUndefined)"

fun pluck_chain :: "store \<Rightarrow> jsval \<Rightarrow> string list \<Rightarrow> error + jsval" where
  "pluck_chain h currentContext [] = Inr currentContext"
| "pluck_chain h currentContext (p # rest) =
     (if nullish currentContext then Inr JUndefined
      else (case get_property h currentContext p of
              Inl e \<Rightarrow> Inl e
            | Inr c \<Rightarrow> pluck_chain h c rest))"

definition getPluckFunction :: "store \<Rightarrow> string \<Rightarrow> jsval \<Rightarrow> error + jsval" where
  "getPluckFunction h property =
     (let propertyChain = split_path property []
      in if length propertyChain = 1
         then (\<lambda>item. get_property h item (propertyChain ! 0))
         else (\<lambda>item. pluck_chain h item propertyChain))"

fun pluck_loop :: "(jsval \<Rightarrow> error + jsval) \<Rightarrow> jsval list \<Rightarrow> jsval list \<Rightarrow> error + jsval list" where
  "pluck_loop doPluck [] result = Inr result"
| "pluck_loop doPluck (x # rest) result =
     (case doPluck x of Inl e \<Rightarrow> Inl e | Inr v \<Rightarrow> pluck_loop doPluck rest (result @ [v]))"

fun findBy_loop :: "(jsval \<Rightarrow> error + jsval) \<Rightarrow> jsval \<Rightarrow> jsval list \<Rightarrow> error + jsval" where
  "findBy_loop doPluck v [] = Inr JUndefined"
| "findBy_loop doPluck v (x # rest) =
     (case doPluck x of
        Inl e \<Rightarrow> Inl e
      | Inr p \<Rightarrow> if strict_eq p v then Inr x else findBy_loop doPluck v rest)"

text \<open>
  \<open>groupBy\<close> makes a Map and, for each group, a List the items are added to; the store
  gets the Lists with the items of their groups, then the Map.
\<close>

fun group_lists :: "(jsval \<times> jsval list) list \<Rightarrow> store \<Rightarrow> (jsval \<times> nat) list \<times> store" where
  "group_lists [] h = ([], h)"
| "group_lists ((k, xs) # rest) h =
     (let (items, h) = new_array xs h;
          (l, h) = alloc (IterableObj ListKind items) h;
          (m, h) = group_lists rest h
      in ((k, l) # m, h))"

text \<open>The calls of the traversal protocol, and what each does to the store.\<close>

datatype traversal =
    Size
  | IsEmpty
  | ItemAt int
  | First
  | Last
  | Each "jsval \<Rightarrow> jsval \<Rightarrow> jsval"
  | Map "jsval \<Rightarrow> jsval \<Rightarrow> jsval"
  | Pluck string
  | Filter "jsval \<Rightarrow> jsval \<Rightarrow> jsval"
  | Count "jsval \<Rightarrow> jsval \<Rightarrow> jsval"
  | Find "jsval \<Rightarrow> jsval \<Rightarrow> jsval"
  | FindBy string jsval
  | SomeOf "jsval \<Rightarrow> jsval \<Rightarrow> jsval"
  | Every "jsval \<Rightarrow> jsval \<Rightarrow> jsval"
  | Grouped jsval
  | GroupBy "jsval \<Rightarrow> jsval \<Rightarrow> jsval"
  | Fold jsval "jsval \<Rightarrow> jsval \<Rightarrow> jsval"
  | Partition "jsval \<Rightarrow> jsval \<Rightarrow> jsval"
  | Drop int
  | DropRight int
  | DropWhile "jsval \<Rightarrow> jsval \<Rightarrow> jsval"
  | Take int
  | TakeRight int
  | TakeWhile "jsval \<Rightarrow> jsval \<Rightarrow> jsval"
  | Reverse
  | Slice int "int option"
  | Sorted options
  | MkString string string string
  | ToList
  | ToArray
  | Clone
  | ToString

definition returning :: "nat \<times> store \<Rightarrow> (error + jsval) \<times> store" where
  "returning r = (Inr (JObj (fst r)), snd r)"

definition type_name :: "kind \<Rightarrow> string" where
  "type_name k = (case k of ListKind \<Rightarrow> ''List'' | SimpleIterable \<Rightarrow> ''SimpleIterable'')"

fun call :: "host \<Rightarrow> traversal \<Rightarrow> nat \<Rightarrow> store \<Rightarrow> (error + jsval) \<times> store" where
  "call H Size this h = (Inr (JNum (real (length (items_of h this)))), h)"
| "call H IsEmpty this h = (Inr (JBool (int (length (items_of h this)) = 0)), h)"
| "call H (ItemAt i) this h = (Inr (array_get (items_of h this) i), h)"
| "call H First this h = (Inr (array_get (items_of h this) 0), h)"
| "call H Last this h =
     (Inr (array_get (items_of h this) (int (length (items_of h this)) - 1)), h)"
| "call H (Each callback) this h =
     (let called = each_items callback (items_of h this) in (Inr JUndefined, h))"
| "call H (Map callback) this h =
     returning (create_from this (map_items H callback (items_of h this)) h)"
| "call H (Pluck property) this h =
     (case pluck_loop (getPluckFunction h property) (items_of h this) [] of
        Inl e \<Rightarrow> (Inl e, h)
      | Inr result \<Rightarrow>
          (let (result, h) = new_array result h in returning (List_fromArray result h)))"
| "call H (Filter predicate) this h =
     returning (create_from this (filter_items predicate (items_of h this)) h)"
| "call H (Count predicate) this h = (Inr (JNum (real_of_int (count_items predicate (items_of h this)))), h)"
| "call H (Find predicate) this h = (Inr (find_items predicate (items_of h this)), h)"
| "call H (FindBy property v) this h =
     (findBy_loop (getPluckFunction h property) v (items_of h this), h)"
| "call H (SomeOf predicate) this h = (Inr (JBool (some_items predicate (items_of h this))), h)"
| "call H (Every predicate) this h = (Inr (JBool (every_items predicate (items_of h this))), h)"
| "call H (Grouped size') this h =
     (let (groups, h) = create_all this (grouped_items size' (items_of h this)) h;
          (groups, h) = new_array (map JObj groups) h
      in returning (List_fromArray groups h))"
| "call H (GroupBy discriminator) this h =
     (let (groups, h) = group_lists (groupBy_items discriminator (items_of h this)) h
      in returning (alloc (MapObj groups) h))"
| "call H (Fold initialValue operator) this h =
     (Inr (fold_items initialValue operator (items_of h this)), h)"
| "call H (Partition predicate) this h =
     (let (yes, no) = partition_items predicate (items_of h this);
          (y, h) = create_from this yes h;
          (n, h) = create_from this no h
      in returning (new_array [JObj y, JObj n] h))"
| "call H (Drop n) this h =
     (let n = min n (int (length (items_of h this)));
          (result, h) = array_slice (items_ref h this) n None h
      in returning (createNew this result h))"
| "call H (DropRight n) this h =
     (let n = min n (int (length (items_of h this)));
          (result, h) = array_slice (items_ref h this) 0
                          (Some (int (length (items_of h this)) - n)) h
      in returning (createNew this result h))"
| "call H (DropWhile predicate) this h =
     (let (result, h) = array_slice (items_ref h this) 0 None h;
          h = array_write result (dropWhile_items predicate (items_of h this)) h
      in returning (createNew this result h))"
| "call H (Take n) this h =
     (let n = min n (int (length (items_of h this)));
          (result, h) = array_slice (items_ref h this) 0 (Some n) h
      in returning (createNew this result h))"
| "call H (TakeRight n) this h =
     (let n = min n (int (length (items_of h this)));
          (result, h) = array_slice (items_ref h this) (- n) None h
      in returning (createNew this result h))"
| "call H (TakeWhile predicate) this h =
     returning (create_from this (takeWhile_items predicate (items_of h this)) h)"
| "call H Reverse this h =
     (let (copy, h) = array_slice (items_ref h this) 0 None h;
          (reversed, h) = array_reverse copy h
      in returning (createNew this reversed h))"
| "call H (Slice start end') this h =
     (let (result, h) = array_slice (items_ref h this) start end' h
      in returning (createNew this result h))"
| "call H (Sorted opts) this h =
     (case sorted_items H opts (items_of h this) of
        Inl e \<Rightarrow> (Inl e, h)
      | Inr result \<Rightarrow> returning (create_from this result h))"
| "call H (MkString start sep end') this h =
     (Inr (JStr (mkString H start sep end' (items_of h this))), h)"
| "call H ToList this h = returning (List_fromArray (items_ref h this) h)"
| "call H ToArray this h = returning (cloneArray (items_ref h this) h)"
| "call H Clone this h =
     (let (copy, h) = array_slice (items_ref h this) 0 None h
      in returning (createNew this copy h))"
| "call H ToString this h =
     (Inr (JStr (type_name (kind_of_this h this) @ ''('' @ join H (items_of h this) '', '' @ '')'')),
      h)"

text \<open>
  The receiver of a call: an Iterable of the store whose \<open>items\<close> is an array of the
  store.
\<close>

definition receiver :: "store \<Rightarrow> nat \<Rightarrow> bool" where
  "receiver h this =
     (this < length h
      \<and> (case h ! this of
            IterableObj k a \<Rightarrow>
              a < length h \<and> (case h ! a of ArrayObj xs \<Rightarrow> True | _ \<Rightarrow> False)
          | _ \<Rightarrow> False))"

text \<open>
  A store extends another when every object of the other is in it, unchanged, under the
  same reference.
\<close>

definition extends :: "store \<Rightarrow> store \<Rightarrow> bool" where
  "extends h h' = (length h \<le> length h' \<and> take (length h) h' = h)"

text \<open>
  The result of a call is a collection made during the call from \<open>h\<close>: its array is
  not the receiver's, is newer than every object of \<open>h\<close>, and holds \<open>xs\<close>.
\<close>

definition made_from :: "store \<Rightarrow> nat \<Rightarrow> store \<Rightarrow> jsval \<Rightarrow> jsval list \<Rightarrow> bool" where
  "made_from h this h' result xs =
     (case result of
        JObj c \<Rightarrow>
          receiver h' c \<and> items_ref h' c \<noteq> items_ref h this
          \<and> length h \<le> items_ref h' c \<and> items_of h' c = xs
      | _ \<Rightarrow> False)"

section \<open>Index-based mutation\<close>

lemma splice_insert:
  "0 \<le> i \<Longrightarrow> i \<le> int (length a) \<Longrightarrow>
   snd (splice a i 0 [x]) = take (nat i) a @ [x] @ drop (nat i) a"
  by (simp add: splice_def rel_index_def Let_def min_def nat_le_iff)

text \<open>
  C8. \<open>addAt(x, i)\<close> with \<open>0 \<le> i \<le> size()\<close> puts \<open>x\<close> at position \<open>i\<close>, the items from
  \<open>i\<close> on move one place to the right and the size grows by one (\<open>i = size()\<close> appends);
  with \<open>i < 0\<close> or \<open>i > size()\<close> it throws and the items are the ones before the call.
\<close>

theorem addAt_range:
  "(0 \<le> i \<and> i \<le> size_of L \<longrightarrow>
      addAt x i L = (Inr (), take (nat i) L @ [x] @ drop (nat i) L)
      \<and> size_of (snd (addAt x i L)) = size_of L + 1
      \<and> array_get (snd (addAt x i L)) i = x
      \<and> (\<forall>j. 0 \<le> j \<and> j < i \<longrightarrow> array_get (snd (addAt x i L)) j = array_get L j)
      \<and> (\<forall>j. i \<le> j \<and> j < size_of L \<longrightarrow> array_get (snd (addAt x i L)) (j + 1) = array_get L j))
   \<and> (i < 0 \<or> i > size_of L \<longrightarrow>
      addAt x i L = (Inl (IllegalInsertion i (size_of L - 1)), L))"
proof (intro conjI impI)
  assume r: "0 \<le> i \<and> i \<le> size_of L"
  then have le: "nat i \<le> length L" by (simp add: size_of_def nat_le_iff)
  from r show eq: "addAt x i L = (Inr (), take (nat i) L @ [x] @ drop (nat i) L)"
    by (simp add: addAt_def assertRange_def size_of_def splice_insert)
  from le show "size_of (snd (addAt x i L)) = size_of L + 1"
    by (simp add: eq size_of_def)
  from r le show "array_get (snd (addAt x i L)) i = x"
    by (simp add: eq array_get_def size_of_def nth_append)
  from r le show "\<forall>j. 0 \<le> j \<and> j < i \<longrightarrow> array_get (snd (addAt x i L)) j = array_get L j"
    by (auto simp add: eq array_get_def size_of_def nth_append)
  show "\<forall>j. i \<le> j \<and> j < size_of L \<longrightarrow> array_get (snd (addAt x i L)) (j + 1) = array_get L j"
  proof (intro allI impI)
    fix j assume j: "i \<le> j \<and> j < size_of L"
    with r have n: "nat (j + 1) = Suc (nat j)" "nat i \<le> nat j" "nat j < length L"
      by (auto simp add: size_of_def)
    have "(take (nat i) L @ x # drop (nat i) L) ! Suc (nat j) = L ! nat j"
      using n le by (simp add: nth_append min_def Suc_diff_le)
    with j r n show "array_get (snd (addAt x i L)) (j + 1) = array_get L j"
      by (simp add: eq array_get_def size_of_def)
  qed
next
  assume "i < 0 \<or> i > size_of L"
  then show "addAt x i L = (Inl (IllegalInsertion i (size_of L - 1)), L)"
    by (auto simp add: addAt_def assertRange_def)
qed

theorem addAt_range_witness:
  "addAt (JNum 9) 2 [JNum 1, JNum 2] = (Inr (), [JNum 1, JNum 2, JNum 9])
   \<and> addAt (JNum 9) 1 [JNum 1, JNum 2] = (Inr (), [JNum 1, JNum 9, JNum 2])
   \<and> addAt (JNum 9) 3 [JNum 1, JNum 2] = (Inl (IllegalInsertion 3 1), [JNum 1, JNum 2])
   \<and> addAt (JNum 9) (- 1) [JNum 1, JNum 2] = (Inl (IllegalInsertion (- 1) 1), [JNum 1, JNum 2])"
  using addAt_range [of 2 "[JNum 1, JNum 2]" "JNum 9"]
        addAt_range [of 1 "[JNum 1, JNum 2]" "JNum 9"]
        addAt_range [of 3 "[JNum 1, JNum 2]" "JNum 9"]
        addAt_range [of "- 1" "[JNum 1, JNum 2]" "JNum 9"]
  by (simp add: size_of_def)

text \<open>
  C1. \<open>update(i, x)\<close> with \<open>i = size()\<close> passes the range check, which is the one of
  \<open>addAt\<close>: nothing is thrown, and the array grows by the new item.
\<close>

theorem update_at_size:
  "update 2 (JNum 9) [JNum 1, JNum 2] = (Inr (), [JNum 1, JNum 2, JNum 9])"
  by (simp add: update_def assertRange_def size_of_def array_get_def array_set_def strict_eq_def)

text \<open>What \<open>update\<close> does at every index.\<close>

lemma update_cases:
  "update i x L =
     (if i < 0 \<or> i > size_of L then (Inl (IllegalInsertion i (size_of L - 1)), L)
      else if i < size_of L then (Inr (), L[nat i := x])
      else (Inr (), if x = JUndefined then L else L @ [x]))"
proof -
  have "L[nat i := x] = L" if "0 \<le> i" "i < int (length L)" "strict_eq (L ! nat i) x"
    using that by (simp add: strict_eq_def list_update_same_conv)
  then show ?thesis
    by (auto simp add: update_def assertRange_def size_of_def array_get_def array_set_def
          strict_eq_def)
qed

section \<open>insert\<close>












text \<open>
  A number and a string compare as numbers: on a host for which the string \<open>1.5\<close>
  stands for the number, \<open>2\<close> is inserted after it.
\<close>

lemma insert_number_after_numeric_string:
  assumes "string_to_number H ''1.5'' = JNum (3 / 2)"
  shows "insert_item H (JNum 2) None [JStr ''1.5''] = Some (Inr (), [JStr ''1.5'', JNum 2])"
proof -
  have gt: "defaultSortFunction H (JNum 2) (JStr ''1.5'') = 1"
    using assms by (simp add: defaultSortFunction_def js_lt_def to_primitive_def)
  have "insert_loop (defaultSortFunction H) (JNum 2) [JStr ''1.5''] 0 1 = Some 1"
    by (subst insert_loop.simps, subst insert_loop.simps)
       (simp add: shr1_def to_int32_def array_get_def gt)
  then show ?thesis
    by (simp add: insert_item_def size_of_def addAt_def assertRange_def splice_def rel_index_def)
qed

section \<open>removeIf\<close>

lemma splice_beyond: "int (length a) \<le> i \<Longrightarrow> snd (splice a i 1 []) = a"
  by (simp add: splice_def rel_index_def Let_def min_def)

lemma array_get_beyond: "int (length a) \<le> i \<Longrightarrow> array_get a i = JUndefined"
  by (simp add: array_get_def)

lemma array_get_nth: "i < length a \<Longrightarrow> array_get a (int i) = a ! i"
  by (simp add: array_get_def)

lemma splice_remove_one:
  "snd (splice (kept @ x # rest) (int (length kept)) 1 []) = kept @ rest"
  by (simp add: splice_def rel_index_def Let_def)

lemma removeIf_loop_tail:
  "\<not> p JUndefined \<Longrightarrow> int (length items) \<le> i \<Longrightarrow>
   removeIf_loop p (i + int k) i items removed calls
     = Some (removed, items, calls @ replicate k JUndefined)"
proof (induction k arbitrary: i calls)
  case 0
  show ?case by (subst removeIf_loop.simps) simp
next
  case (Suc k)
  have "removeIf_loop p (i + 1 + int k) (i + 1) items removed (calls @ [JUndefined])
          = Some (removed, items, (calls @ [JUndefined]) @ replicate k JUndefined)"
    using Suc.prems by (intro Suc.IH) auto
  then show ?case
    using Suc.prems
    by (subst removeIf_loop.simps) (simp add: array_get_beyond add.assoc replicate_app_Cons_same)
qed

lemma removeIf_loop_scan:
  "\<not> p JUndefined \<Longrightarrow>
   removeIf_loop p (int (length kept) + int (length rest) + int k) (int (length kept))
       (kept @ rest) removed calls
     = Some (removed @ filter p rest, kept @ filter (\<lambda>x. \<not> p x) rest,
             calls @ rest @ replicate (k + length (filter p rest)) JUndefined)"
proof (induction rest arbitrary: kept removed calls k)
  case Nil
  then show ?case
    using removeIf_loop_tail [of p kept "int (length kept)" k removed calls] by simp
next
  case (Cons x rest)
  have get: "array_get (kept @ x # rest) (int (length kept)) = x"
    by (simp add: array_get_def)
  show ?case
  proof (cases "p x")
    case True
    have "removeIf_loop p (int (length kept) + int (length rest) + int (Suc k)) (int (length kept))
            (kept @ rest) (removed @ [x]) (calls @ [x])
          = Some ((removed @ [x]) @ filter p rest, kept @ filter (\<lambda>x. \<not> p x) rest,
             (calls @ [x]) @ rest @ replicate (Suc k + length (filter p rest)) JUndefined)"
      using Cons.prems by (rule Cons.IH)
    then show ?thesis
      using True
      by (subst removeIf_loop.simps) (simp add: get splice_remove_one ac_simps)
  next
    case False
    have "removeIf_loop p (int (length (kept @ [x])) + int (length rest) + int k)
            (int (length (kept @ [x]))) ((kept @ [x]) @ rest) removed (calls @ [x])
          = Some (removed @ filter p rest, (kept @ [x]) @ filter (\<lambda>x. \<not> p x) rest,
             (calls @ [x]) @ rest @ replicate (k + length (filter p rest)) JUndefined)"
      using Cons.prems by (rule Cons.IH)
    then show ?thesis
      using False
      by (subst removeIf_loop.simps) (simp add: get ac_simps)
  qed
qed

lemma removeIf_returns:
  "\<not> p JUndefined \<Longrightarrow>
   removeIf p items = Some (filter p items, filter (\<lambda>x. \<not> p x) items,
                            items @ replicate (length (filter p items)) JUndefined)"
  using removeIf_loop_scan [of p "[]" items 0 "[]" "[]"] by (simp add: removeIf_def)

lemma length_splice_one:
  "0 \<le> i \<Longrightarrow> i < int (length a) \<Longrightarrow> length (snd (splice a i 1 [])) = length a - 1"
  by (auto simp add: splice_def rel_index_def Let_def min_def)

lemma shrunk_never_returns:
  assumes "removeIf_loop p n i items removed calls = Some r"
  shows "\<not> shrunk p n i items"
proof (rule removeIf_loop.raw_induct
    [where P = "\<lambda>p n i items removed calls r. \<not> shrunk p n i items", OF _ assms])
  fix f p n i items removed calls and r :: "jsval list \<times> jsval list \<times> jsval list"
  assume ih: "\<And>p n i items removed calls r. f p n i items removed calls = Some r \<Longrightarrow> \<not> shrunk p n i items"
    and step: "(if i < n
      then if p (array_get items i)
           then f p n (i - 1 + 1) (snd (splice items i 1 []))
                 (removed @ [array_get items i]) (calls @ [array_get items i])
           else f p n (i + 1) items removed (calls @ [array_get items i])
      else Some (removed, items, calls)) = Some r"
  show "\<not> shrunk p n i items"
  proof
    assume s: "shrunk p n i items"
    show False
    proof (cases "i = int (length items)")
      case True
      with s have "f p n i items (removed @ [JUndefined]) (calls @ [JUndefined]) = Some r"
        using step by (simp add: shrunk_def splice_beyond array_get_beyond)
      from ih [OF this] s show False by simp
    next
      case False
      with s have lt: "0 \<le> i" "i < int (length items)" "i < n" by (auto simp add: shrunk_def)
      show False
      proof (cases "p (array_get items i)")
        case True
        with lt step have "f p n i (snd (splice items i 1 []))
                 (removed @ [array_get items i]) (calls @ [array_get items i]) = Some r"
          by simp
        from ih [OF this] have "\<not> shrunk p n i (snd (splice items i 1 []))" .
        with s lt show False by (simp add: shrunk_def length_splice_one)
      next
        case False
        with lt step have "f p n (i + 1) items removed (calls @ [array_get items i]) = Some r"
          by simp
        from ih [OF this] have "\<not> shrunk p n (i + 1) items" .
        with s lt show False by (simp add: shrunk_def)
      qed
    qed
  qed
qed

lemma removeIf_loop_diverges:
  "p JUndefined \<Longrightarrow> \<exists>x \<in> set rest. p x \<Longrightarrow>
   removeIf_loop p (int (length kept) + int (length rest)) (int (length kept))
       (kept @ rest) removed calls = None"
proof (induction rest arbitrary: kept removed calls)
  case Nil
  then show ?case by simp
next
  case (Cons x rest)
  have get: "array_get (kept @ x # rest) (int (length kept)) = x"
    by (simp add: array_get_def)
  show ?case
  proof (cases "p x")
    case True
    have "shrunk p (int (length kept) + int (length (x # rest))) (int (length kept)) (kept @ rest)"
      using Cons.prems by (simp add: shrunk_def)
    then have "removeIf_loop p (int (length kept) + int (length (x # rest))) (int (length kept))
                 (kept @ rest) (removed @ [x]) (calls @ [x]) = None"
      using shrunk_never_returns by (metis not_Some_eq)
    then show ?thesis
      using True by (subst removeIf_loop.simps) (simp add: get splice_remove_one)
  next
    case False
    with Cons.prems have ex: "\<exists>x \<in> set rest. p x" by auto
    have "removeIf_loop p (int (length (kept @ [x])) + int (length rest))
            (int (length (kept @ [x]))) ((kept @ [x]) @ rest) removed (calls @ [x]) = None"
      using Cons.prems(1) ex by (rule Cons.IH)
    then show ?thesis
      using False by (subst removeIf_loop.simps) (simp add: get ac_simps)
  qed
qed

text \<open>
  With a predicate that is false of \<open>undefined\<close> the call returns, with the items that
  satisfy the predicate removed and returned in their order; the predicate is called once
  more, on \<open>undefined\<close>, for each removed item. With a predicate that holds of
  \<open>undefined\<close> and of some item, the call never returns.
\<close>

lemma removeIf_diverges:
  "p JUndefined \<Longrightarrow> \<exists>x \<in> set items. p x \<Longrightarrow> removeIf p items = None"
  using removeIf_loop_diverges [of p items "[]" "[]" "[]"] by (simp add: removeIf_def)

text \<open>
  C3. \<open>List(1).removeIf(function (x) { return true; })\<close> never returns: after the
  removal of the only item the counter stays below the length read at the start, the
  predicate accepts the \<open>undefined\<close> read past the end of the array, and the counter
  is stepped back each time.
\<close>

theorem removeIf_never_returns:
  "removeIf (\<lambda>x. True) [JNum 1] = None"
  by (rule removeIf_diverges) simp_all

section \<open>map\<close>

lemma fold_indices:
  "fold (\<lambda>i r. f (array_get items (int i)) r) [0..<length items] r0 = fold f items r0"
proof (induction items arbitrary: r0 rule: rev_induct)
  case Nil
  show ?case by simp
next
  case (snoc x xs)
  have "fold (\<lambda>i r. f (array_get (xs @ [x]) (int i)) r) [0..<length xs] r0
          = fold (\<lambda>i r. f (array_get xs (int i)) r) [0..<length xs] r0"
    by (rule fold_cong) (simp_all add: array_get_def nth_append)
  moreover have "array_get (xs @ [x]) (int (length xs)) = x"
    by (simp add: array_get_def)
  ultimately show ?case
    by (simp add: snoc.IH)
qed

lemma loose_eq_string_NOT_MAPPED:
  "loose_eq H (JStr s) NOT_MAPPED \<longleftrightarrow> s = ''[object Object]''"
  by (simp add: loose_eq_def NOT_MAPPED_def nullish_def to_primitive_def bool_to_number_def)

text \<open>
  On a host for which the string \<open>[object Object]\<close> stands for no number, that string
  is the only value besides the marker that compares equal to it.
\<close>

lemma loose_eq_NOT_MAPPED:
  assumes "string_to_number H ''[object Object]'' = JNaN"
  shows "loose_eq H v NOT_MAPPED \<longleftrightarrow> v = NOT_MAPPED \<or> v = JStr ''[object Object]''"
  using assms
  by (cases v)
     (auto simp add: loose_eq_def NOT_MAPPED_def strict_eq_def nullish_def to_primitive_def
        bool_to_number_def)

lemma fold_keep:
  "fold (\<lambda>x r. if keep (g x) then r @ [g x] else r) xs r0 = r0 @ filter keep (map g xs)"
  by (induction xs arbitrary: r0) simp_all

lemma map_items_filter:
  "map_items H callback items
     = filter (\<lambda>v. \<not> loose_eq H v NOT_MAPPED) (map (\<lambda>x. callback x JUndefined) items)"
proof -
  have "map_items H callback items
          = fold (\<lambda>x r. if \<not> loose_eq H (callback x JUndefined) NOT_MAPPED
                        then r @ [callback x JUndefined] else r) items []"
    unfolding map_items_def invoke_def Let_def
    by (rule fold_indices [where f = "\<lambda>x r. if \<not> loose_eq H (callback x JUndefined) NOT_MAPPED
                        then r @ [callback x JUndefined] else r"])
  then show ?thesis
    by (simp add: fold_keep [where keep = "\<lambda>v. \<not> loose_eq H v NOT_MAPPED"])
qed

text \<open>
  C4. The test \<open>mapped != Collection.NOT_MAPPED\<close> converts the marker to a string when
  the mapped value is a string: a callback that returns the string \<open>[object Object]\<close>
  has its result dropped, as if it had returned the marker.
\<close>

theorem map_drops_string:
  "map_items H (\<lambda>x extra. JStr ''[object Object]'') [JNum 1] = []"
  by (simp add: map_items_filter loose_eq_string_NOT_MAPPED)

section \<open>drop and take\<close>













section \<open>sorted\<close>

subsection \<open>The first loop\<close>

lemma entries_from_Nil: "entries_from H by' ic i [] = []"
  by (simp add: entries_from_def)

lemma entries_from_Cons:
  "entries_from H by' ic i (x # xs)
     = (if missing (sort_value by' x) then [] else [entry_at H by' ic (i, x)])
       @ entries_from H by' ic (Suc i) xs"
proof -
  have "[i..<i + length (x # xs)] = i # [Suc i..<Suc i + length xs]"
    using upt_conv_Cons [of i "Suc i + length xs"] by simp
  then have z: "zip [i..<i + length (x # xs)] (x # xs) = (i, x) # zip [Suc i..<Suc i + length xs] xs"
    by (simp only: zip_Cons_Cons)
  show ?thesis
    unfolding entries_from_def z by simp
qed

lemma sorted_scan_missing:
  "missing (sort_value by' x) \<Longrightarrow>
   sorted_scan H by' ic i (x # xs) mapped md
     = sorted_scan H by' ic (Suc i) xs mapped (md @ [sort_value by' x])"
  by (simp add: sort_value_def missing_def)

lemma sorted_scan_plain:
  "\<not> missing (sort_value by' x) \<Longrightarrow> \<not> ic \<Longrightarrow>
   sorted_scan H by' ic i (x # xs) mapped md
     = sorted_scan H by' ic (Suc i) xs (mapped @ [\<lparr>index = i, value = sort_value by' x\<rparr>]) md"
  by (simp add: sort_value_def missing_def)

lemma sorted_scan_upper:
  "\<not> missing (sort_value by' x) \<Longrightarrow> ic \<Longrightarrow> sort_value by' x = JStr s \<Longrightarrow>
   sorted_scan H by' ic i (x # xs) mapped md
     = sorted_scan H by' ic (Suc i) xs
         (mapped @ [\<lparr>index = i, value = JStr (upper_case H s)\<rparr>]) md"
  by (simp add: sort_value_def missing_def toUpperCase_def)

lemma sorted_scan_error:
  "\<not> missing (sort_value by' x) \<Longrightarrow> ic \<Longrightarrow> \<forall>s. sort_value by' x \<noteq> JStr s \<Longrightarrow>
   sorted_scan H by' ic i (x # xs) mapped md = Inl TypeError"
  by (cases "sort_value by' x") (simp_all add: sort_value_def missing_def toUpperCase_def)





subsection \<open>The sort\<close>






subsection \<open>The result\<close>


subsection \<open>Ties\<close>






subsection \<open>Numbers\<close>


subsection \<open>Strings\<close>







subsection \<open>reverse\<close>

lemma sorted_scan_returned:
  "sorted_scan H by' ic i xs mapped md = Inr (mapped', md') \<Longrightarrow>
   mapped' = mapped @ entries_from H by' ic i xs
   \<and> md' = md @ filter missing (map (sort_value by') xs)"
proof (induction xs arbitrary: i mapped md)
  case Nil
  then show ?case by (simp add: entries_from_Nil)
next
  case (Cons x xs)
  show ?case
  proof (cases "missing (sort_value by' x)")
    case True
    with Cons.prems have "sorted_scan H by' ic (Suc i) xs mapped (md @ [sort_value by' x])
                            = Inr (mapped', md')"
      by (simp add: sorted_scan_missing del: sorted_scan.simps)
    from Cons.IH [OF this] True show ?thesis by (simp add: entries_from_Cons)
  next
    case False
    show ?thesis
    proof (cases ic)
      case ic: False
      with Cons.prems False
      have "sorted_scan H by' ic (Suc i) xs (mapped @ [\<lparr>index = i, value = sort_value by' x\<rparr>]) md
              = Inr (mapped', md')"
        by (simp add: sorted_scan_plain del: sorted_scan.simps)
      from Cons.IH [OF this] False ic show ?thesis
        by (simp add: entries_from_Cons entry_at_def compare_value_def)
    next
      case True
      show ?thesis
      proof (cases "\<exists>s. sort_value by' x = JStr s")
        case str: True
        then obtain s where s: "sort_value by' x = JStr s" ..
        from Cons.prems
        have "sorted_scan H by' ic (Suc i) xs
                (mapped @ [\<lparr>index = i, value = JStr (upper_case H s)\<rparr>]) md
              = Inr (mapped', md')"
          unfolding sorted_scan_upper [OF False True s] .
        from Cons.IH [OF this] False True show ?thesis
          by (simp add: entries_from_Cons entry_at_def compare_value_def s)
      next
        case False
        with Cons.prems \<open>\<not> missing (sort_value by' x)\<close> True show ?thesis
          by (simp add: sorted_scan_error del: sorted_scan.simps)
      qed
    qed
  qed
qed

text \<open>
  C2, as amended. \<open>sorted({reverse: true})\<close> returns the reverse of what \<open>sorted()\<close>
  returns: the missing values come first, in the reverse of their original order, and the
  compared items follow in reversed sorted order.
\<close>

theorem sorted_reverse_whole:
  "sorted_items H (opts\<lparr>reverse := True\<rparr>) items
     = (case sorted_items H (opts\<lparr>reverse := False\<rparr>) items of
          Inl e \<Rightarrow> Inl e
        | Inr r \<Rightarrow> Inr (rev r))
   \<and> (\<forall>r. sorted_items H (opts\<lparr>reverse := False\<rparr>) items = Inr r \<longrightarrow>
          (\<exists>ys. r = ys @ missing_values opts items
             \<and> sorted_items H (opts\<lparr>reverse := True\<rparr>) items
                 = Inr (rev (missing_values opts items) @ rev ys)))"
proof (intro conjI allI impI)
  show "sorted_items H (opts\<lparr>reverse := True\<rparr>) items
     = (case sorted_items H (opts\<lparr>reverse := False\<rparr>) items of
          Inl e \<Rightarrow> Inl e
        | Inr r \<Rightarrow> Inr (rev r))"
    by (simp add: sorted_items_def Let_def split: sum.splits prod.splits)
next
  fix r assume r: "sorted_items H (opts\<lparr>reverse := False\<rparr>) items = Inr r"
  then obtain mapped md sorted where
    scan: "sorted_scan H (by opts) (ignoreCase opts) 0 items [] [] = Inr (mapped, md)"
    and sort: "array_sort (sortFunction H (localeCompare opts)) mapped = Inr sorted"
    by (auto simp add: sorted_items_def split: sum.splits prod.splits)
  from sorted_scan_returned [OF scan] have md: "md = missing_values opts items"
    by (simp add: missing_values_def)
  let ?ys = "map (\<lambda>m. array_get items (int (index m))) sorted"
  have "r = ?ys @ missing_values opts items"
    using r by (auto simp add: sorted_items_def scan sort md Let_def)
  moreover have "sorted_items H (opts\<lparr>reverse := True\<rparr>) items
                 = Inr (rev (missing_values opts items) @ rev ?ys)"
    by (simp add: sorted_items_def scan sort md Let_def)
  ultimately show "\<exists>ys. r = ys @ missing_values opts items
             \<and> sorted_items H (opts\<lparr>reverse := True\<rparr>) items
                 = Inr (rev (missing_values opts items) @ rev ys)"
    by blast
qed

text \<open>
  C2, as stated, fails on \<open>[5, 3, '', 1]\<close>: the reversed result starts with the empty
  string instead of ending with it.
\<close>

theorem sorted_reverse_counterexample:
  "\<forall>H. sorted_items H \<lparr>by = None, localeCompare = False, ignoreCase = False, reverse = True\<rparr>
         [JNum 5, JNum 3, JStr [], JNum 1]
         = Inr [JStr [], JNum 5, JNum 3, JNum 1]
       \<and> sorted_items H \<lparr>by = None, localeCompare = False, ignoreCase = False, reverse = True\<rparr>
         [JNum 5, JNum 3, JStr [], JNum 1]
         \<noteq> Inr [JNum 5, JNum 3, JNum 1, JStr []]"
  by (simp add: sorted_items_def sortFunction_def strict_eq_def js_lt_def to_primitive_def
        array_get_def)

theorem sorted_reverse_whole_witness:
  "\<forall>H. sorted_items H \<lparr>by = None, localeCompare = False, ignoreCase = False, reverse = False\<rparr>
         [JNum 5, JNull, JNum 3, JStr [], JNum 1]
         = Inr ([JNum 1, JNum 3, JNum 5] @ [JNull, JStr []])
       \<and> sorted_items H \<lparr>by = None, localeCompare = False, ignoreCase = False, reverse = True\<rparr>
         [JNum 5, JNull, JNum 3, JStr [], JNum 1]
         = Inr (rev [JNull, JStr []] @ rev [JNum 1, JNum 3, JNum 5])"
proof
  fix H
  let ?opts = "\<lparr>by = None, localeCompare = False, ignoreCase = False, reverse = False\<rparr>"
  let ?items = "[JNum 5, JNull, JNum 3, JStr [], JNum 1]"
  have plain: "sorted_items H (?opts\<lparr>reverse := False\<rparr>) ?items
          = Inr [JNum 1, JNum 3, JNum 5, JNull, JStr []]"
    by (simp add: sorted_items_def sortFunction_def strict_eq_def js_lt_def to_primitive_def
          array_get_def)
  have md: "missing_values ?opts ?items = [JNull, JStr []]"
    by (simp add: missing_values_def sort_value_def missing_def)
  show "sorted_items H \<lparr>by = None, localeCompare = False, ignoreCase = False, reverse = False\<rparr>
         [JNum 5, JNull, JNum 3, JStr [], JNum 1]
         = Inr ([JNum 1, JNum 3, JNum 5] @ [JNull, JStr []])
       \<and> sorted_items H \<lparr>by = None, localeCompare = False, ignoreCase = False, reverse = True\<rparr>
         [JNum 5, JNull, JNum 3, JStr [], JNum 1]
         = Inr (rev [JNull, JStr []] @ rev [JNum 1, JNum 3, JNum 5])"
    using sorted_reverse_whole [of H ?opts ?items] plain by (simp add: md)
qed

subsection \<open>by\<close>

lemma sorted_scan_by:
  "sorted_scan H (Some f) ic i items mapped md
     = sorted_scan H None ic i (map (\<lambda>x. if truthy x then f x else x) items) mapped md"
  by (induction items arbitrary: i mapped md) (auto simp add: Let_def split: sum.splits)

lemma falsy_sort_value: "\<not> truthy x \<Longrightarrow> sort_value (Some f) x = x"
  by (simp add: sort_value_def)

lemma missing_falsy: "missing x \<Longrightarrow> \<not> truthy x"
  by (auto simp add: missing_def)

lemma entries_from_member:
  assumes "j < length xs" "\<not> missing (sort_value by' (xs ! j))"
  shows "entry_at H by' ic (i + j, xs ! j) \<in> set (entries_from H by' ic i xs)"
proof -
  have "(i + j, xs ! j) \<in> set (zip [i..<i + length xs] xs)"
    using assms(1) by (auto simp add: in_set_zip intro!: exI [of _ j])
  with assms(2) show ?thesis
    by (auto simp add: entries_from_def)
qed

text \<open>
  C10. The first loop of \<open>sorted\<close> with an extractor is the loop without extractor run
  on the items with every truthy item replaced by what the extractor gives for it and
  every falsy item left as it is; what the extractor would give for a falsy item has no
  part in the result. So an item that is \<open>''\<close>, \<open>null\<close> or \<open>undefined\<close> goes to
  \<open>missingData\<close>, and every other falsy item (such as \<open>0\<close>) is entered in \<open>mapped\<close>
  with itself as the value that is compared.
\<close>

theorem by_on_truthy_items_only:
  "sorted_scan H (Some f) ic i items mapped md
     = sorted_scan H None ic i (map (\<lambda>x. if truthy x then f x else x) items) mapped md
   \<and> sorted_items H (opts\<lparr>by := Some f\<rparr>) items
       = sorted_items H (opts\<lparr>by := Some (\<lambda>x. if truthy x then f x else x)\<rparr>) items
   \<and> (\<forall>mapped' md'. sorted_scan H (Some f) ic i items mapped md = Inr (mapped', md') \<longrightarrow>
         (\<forall>x \<in> set items. missing x \<longrightarrow> x \<in> set md')
         \<and> (\<forall>j < length items. \<not> truthy (items ! j) \<and> \<not> missing (items ! j) \<and> \<not> ic \<longrightarrow>
               \<lparr>index = i + j, value = items ! j\<rparr> \<in> set mapped'))"
proof (intro conjI allI impI ballI)
  show "sorted_scan H (Some f) ic i items mapped md
     = sorted_scan H None ic i (map (\<lambda>x. if truthy x then f x else x) items) mapped md"
    by (rule sorted_scan_by)
  have "sorted_scan H (Some (\<lambda>x. if truthy x then f x else x)) ic' 0 items [] []
          = sorted_scan H (Some f) ic' 0 items [] []" for ic'
    by (simp add: sorted_scan_by [of H _ ic' 0 items] cong: if_cong)
  then show "sorted_items H (opts\<lparr>by := Some f\<rparr>) items
       = sorted_items H (opts\<lparr>by := Some (\<lambda>x. if truthy x then f x else x)\<rparr>) items"
    by (simp add: sorted_items_def Let_def split: sum.splits prod.splits)
next
  fix mapped' md' x
  assume scan: "sorted_scan H (Some f) ic i items mapped md = Inr (mapped', md')"
    and x: "x \<in> set items" "missing x"
  from x have "sort_value (Some f) x = x" by (simp add: falsy_sort_value missing_falsy)
  with x have "x \<in> set (filter missing (map (sort_value (Some f)) items))"
    by (auto simp add: image_iff intro!: bexI [of _ x])
  with sorted_scan_returned [OF scan] show "x \<in> set md'" by simp
next
  fix mapped' md' j
  assume scan: "sorted_scan H (Some f) ic i items mapped md = Inr (mapped', md')"
    and j: "j < length items"
    and raw: "\<not> truthy (items ! j) \<and> \<not> missing (items ! j) \<and> \<not> ic"
  from raw have v: "sort_value (Some f) (items ! j) = items ! j" by (simp add: falsy_sort_value)
  with raw j have "entry_at H (Some f) ic (i + j, items ! j) \<in> set (entries_from H (Some f) ic i items)"
    by (intro entries_from_member) simp_all
  with raw v have "\<lparr>index = i + j, value = items ! j\<rparr> \<in> set (entries_from H (Some f) ic i items)"
    by (simp add: entry_at_def compare_value_def)
  with sorted_scan_returned [OF scan] show "\<lparr>index = i + j, value = items ! j\<rparr> \<in> set mapped'"
    by simp
qed

theorem by_on_truthy_items_only_witness:
  "\<forall>H. sorted_items H
         \<lparr>by = Some (\<lambda>x. JNum 100), localeCompare = False, ignoreCase = False, reverse = False\<rparr>
         [JNum 5, JNum 0, JStr [], JNum 200, JNull]
       = Inr [JNum 0, JNum 5, JNum 200, JStr [], JNull]
       \<and> sorted_scan H (Some (\<lambda>x. JNum 100)) False 0
           [JNum 5, JNum 0, JStr [], JNum 200, JNull] [] []
       = Inr ([\<lparr>index = 0, value = JNum 100\<rparr>, \<lparr>index = 1, value = JNum 0\<rparr>,
               \<lparr>index = 3, value = JNum 100\<rparr>], [JStr [], JNull])
       \<and> JStr [] \<in> set [JStr [], JNull]
       \<and> \<lparr>index = 0 + 1, value = [JNum 5, JNum 0, JStr [], JNum 200, JNull] ! 1\<rparr>
           \<in> set [\<lparr>index = 0, value = JNum 100\<rparr>, \<lparr>index = 1, value = JNum 0\<rparr>,
               \<lparr>index = 3, value = JNum 100\<rparr>]"
proof
  fix H
  let ?f = "\<lambda>x::jsval. JNum 100"
  let ?items = "[JNum 5, JNum 0, JStr [], JNum 200, JNull]"
  let ?opts = "\<lparr>by = Some ?f, localeCompare = False, ignoreCase = False, reverse = False\<rparr>"
  let ?mapped = "[\<lparr>index = 0, value = JNum 100\<rparr>, \<lparr>index = 1, value = JNum 0\<rparr>,
           \<lparr>index = 3, value = JNum 100\<rparr>]"
  have scan: "sorted_scan H (Some ?f) False 0 ?items [] [] = Inr (?mapped, [JStr [], JNull])"
    by (simp add: Let_def eval_nat_numeral)
  have res: "sorted_items H ?opts ?items = Inr [JNum 0, JNum 5, JNum 200, JStr [], JNull]"
    by (simp add: sorted_items_def sortFunction_def strict_eq_def js_lt_def to_primitive_def
          array_get_def Let_def)
  note routed = by_on_truthy_items_only [of H ?f False 0 ?items "[]" "[]" ?opts,
      THEN conjunct2, THEN conjunct2, rule_format, OF scan]
  have m1: "JStr [] \<in> set [JStr [], JNull]"
    using routed [THEN conjunct1, rule_format, of "JStr []"] by (simp add: missing_def)
  have m2: "\<lparr>index = 0 + 1, value = ?items ! 1\<rparr> \<in> set ?mapped"
    using routed [THEN conjunct2, rule_format, of 1] by (simp add: missing_def)
  from res scan m1 m2
  show "sorted_items H ?opts ?items = Inr [JNum 0, JNum 5, JNum 200, JStr [], JNull]
       \<and> sorted_scan H (Some ?f) False 0 ?items [] [] = Inr (?mapped, [JStr [], JNull])
       \<and> JStr [] \<in> set [JStr [], JNull]
       \<and> \<lparr>index = 0 + 1, value = ?items ! 1\<rparr> \<in> set ?mapped"
    by (intro conjI)
qed

section \<open>The traversal protocol and the store\<close>

lemma extends_append: "extends h (h @ ext)"
  by (simp add: extends_def)

lemma extends_iff: "extends h h' \<longleftrightarrow> (\<exists>ext. h' = h @ ext)"
proof
  assume "extends h h'"
  then have "h' = h @ drop (length h) h'"
    by (metis append_take_drop_id extends_def)
  then show "\<exists>ext. h' = h @ ext" ..
next
  assume "\<exists>ext. h' = h @ ext"
  then show "extends h h'" by (auto simp add: extends_def)
qed

lemma extends_trans: "extends h h' \<Longrightarrow> extends h' h'' \<Longrightarrow> extends h h''"
  by (auto simp add: extends_iff)

lemma extends_nth: "extends h h' \<Longrightarrow> r < length h \<Longrightarrow> h' ! r = h ! r"
  by (auto simp add: extends_iff nth_append)

lemma extends_length: "extends h h' \<Longrightarrow> length h \<le> length h'"
  by (simp add: extends_def)

lemma extends_kind: "extends h h' \<Longrightarrow> this < length h \<Longrightarrow> kind_of_this h' this = kind_of_this h this"
  by (auto simp add: extends_iff kind_of_this_def nth_append)

lemma extends_items_ref:
  "extends h h' \<Longrightarrow> this < length h \<Longrightarrow> items_ref h' this = items_ref h this"
  by (auto simp add: extends_iff items_ref_def nth_append)

lemma extends_array_of: "extends h h' \<Longrightarrow> a < length h \<Longrightarrow> array_of h' a = array_of h a"
  by (auto simp add: extends_iff array_of_def nth_append)

lemma receiver_items_ref: "receiver h this \<Longrightarrow> items_ref h this < length h"
  by (auto simp add: receiver_def items_ref_def split: obj.splits)

lemma receiver_this: "receiver h this \<Longrightarrow> this < length h"
  by (simp add: receiver_def)

lemma extends_items_of:
  "extends h h' \<Longrightarrow> receiver h this \<Longrightarrow> items_of h' this = items_of h this"
  by (simp add: items_of_def extends_items_ref extends_array_of receiver_items_ref receiver_this)

subsection \<open>Every primitive extends the store\<close>

lemma alloc_extends: "extends h (snd (alloc ob h))"
  by (simp add: alloc_def extends_append)

lemma new_array_extends: "extends h (snd (new_array xs h))"
  by (simp add: new_array_def alloc_extends)

lemma array_slice_extends: "extends h (snd (array_slice a s e h))"
  by (simp add: array_slice_def new_array_extends)

lemma cloneArray_extends: "extends h (snd (cloneArray a h))"
  by (simp add: cloneArray_def new_array_extends)

lemma List_fromArray_extends: "extends h (snd (List_fromArray a h))"
  by (simp add: List_fromArray_def cloneArray_def new_array_def alloc_def extends_iff)

lemma createNew_extends: "extends h (snd (createNew this a h))"
  by (simp add: createNew_def List_fromArray_extends alloc_extends split: kind.splits)

lemma create_from_extends: "extends h (snd (create_from this xs h))"
proof -
  obtain r h1 where n: "new_array xs h = (r, h1)" by (cases "new_array xs h")
  then have "extends h h1" using new_array_extends [of h xs] by simp
  moreover have "extends h1 (snd (createNew this r h1))" by (rule createNew_extends)
  ultimately show ?thesis
    by (simp add: create_from_def n extends_trans)
qed

lemma create_all_extends: "extends h (snd (create_all this xss h))"
proof (induction xss arbitrary: h)
  case Nil
  show ?case by (simp add: extends_iff)
next
  case (Cons xs xss)
  obtain c h1 where c: "create_from this xs h = (c, h1)" by (cases "create_from this xs h")
  then have 1: "extends h h1" using create_from_extends [of h this xs] by simp
  obtain cs h2 where cs: "create_all this xss h1 = (cs, h2)" by (cases "create_all this xss h1")
  then have 2: "extends h1 h2" using Cons.IH [of h1] by simp
  from 1 2 show ?case by (simp add: c cs extends_trans)
qed

lemma group_lists_extends: "extends h (snd (group_lists gs h))"
proof (induction gs arbitrary: h)
  case Nil
  show ?case by (simp add: extends_iff)
next
  case (Cons g gs)
  obtain k xs where g: "g = (k, xs)" by (cases g)
  have 1: "extends h (h @ [ArrayObj xs, IterableObj ListKind (length h)])"
    by (rule extends_append)
  obtain m h2 where m: "group_lists gs (h @ [ArrayObj xs, IterableObj ListKind (length h)]) = (m, h2)"
    by (cases "group_lists gs (h @ [ArrayObj xs, IterableObj ListKind (length h)])")
  then have 2: "extends (h @ [ArrayObj xs, IterableObj ListKind (length h)]) h2"
    using Cons.IH [of "h @ [ArrayObj xs, IterableObj ListKind (length h)]"] by simp
  from 1 2 show ?case
    by (simp add: g new_array_def alloc_def m extends_trans)
qed

lemma returning_snd: "snd (returning r) = snd r"
  by (simp add: returning_def)

text \<open>A write to an array made since \<open>h\<close> leaves the objects of \<open>h\<close> alone.\<close>

lemma array_write_extends:
  "extends h h1 \<Longrightarrow> length h \<le> a \<Longrightarrow> extends h (array_write a xs h1)"
  by (auto simp add: extends_iff array_write_def list_update_append)

lemma array_reverse_extends:
  "extends h h1 \<Longrightarrow> length h \<le> a \<Longrightarrow> extends h (snd (array_reverse a h1))"
  by (auto simp add: extends_iff array_reverse_def list_update_append)

lemma array_slice_fresh: "fst (array_slice a s e h) = length h"
  by (simp add: array_slice_def new_array_def alloc_def)


lemma extends_refl: "extends h h"
  by (simp add: extends_def)

lemma new_array_step:
  "extends h0 h \<Longrightarrow> new_array xs h = (r, h1) \<Longrightarrow> extends h0 h1 \<and> r = length h"
  using new_array_extends [of h xs] by (auto simp add: new_array_def alloc_def intro: extends_trans)

lemma array_slice_step:
  "extends h0 h \<Longrightarrow> array_slice a s e h = (r, h1) \<Longrightarrow> extends h0 h1 \<and> r = length h"
  unfolding array_slice_def by (rule new_array_step)

lemma alloc_step:
  "extends h0 h \<Longrightarrow> alloc ob h = (r, h1) \<Longrightarrow> extends h0 h1 \<and> r = length h"
  using alloc_extends [of h ob] by (auto simp add: alloc_def intro: extends_trans)

lemma cloneArray_step:
  "extends h0 h \<Longrightarrow> cloneArray a h = (r, h1) \<Longrightarrow> extends h0 h1 \<and> r = length h"
  unfolding cloneArray_def by (rule new_array_step)

lemma List_fromArray_step:
  "extends h0 h \<Longrightarrow> List_fromArray a h = (r, h1) \<Longrightarrow> extends h0 h1"
  using List_fromArray_extends [of h a] by (auto intro: extends_trans)

lemma createNew_step:
  "extends h0 h \<Longrightarrow> createNew this a h = (r, h1) \<Longrightarrow> extends h0 h1"
  using createNew_extends [of h this a] by (auto intro: extends_trans)

lemma create_from_step:
  "extends h0 h \<Longrightarrow> create_from this xs h = (r, h1) \<Longrightarrow> extends h0 h1"
  using create_from_extends [of h this xs] by (auto intro: extends_trans)

lemma create_all_step:
  "extends h0 h \<Longrightarrow> create_all this xss h = (r, h1) \<Longrightarrow> extends h0 h1"
  using create_all_extends [of h this xss] by (auto intro: extends_trans)

lemma group_lists_step:
  "extends h0 h \<Longrightarrow> group_lists gs h = (r, h1) \<Longrightarrow> extends h0 h1"
  using group_lists_extends [of h gs] by (auto intro: extends_trans)

lemma array_reverse_step:
  "extends h0 h \<Longrightarrow> length h0 \<le> a \<Longrightarrow> array_reverse a h = (r, h1) \<Longrightarrow>
   extends h0 h1 \<and> r = a"
  using array_reverse_extends [of h0 h a] by (auto simp add: array_reverse_def)

lemma call_extends: "extends h (snd (call H op this h))"
proof (cases op)
  case (Map callback)
  then show ?thesis by (simp add: returning_snd create_from_extends)
next
  case (Pluck property)
  show ?thesis
  proof (cases "pluck_loop (getPluckFunction h property) (items_of h this) []")
    case (Inl e)
    with Pluck show ?thesis by (simp add: extends_refl)
  next
    case (Inr result)
    obtain r h1 where n: "new_array result h = (r, h1)" by (cases "new_array result h")
    from new_array_step [OF extends_refl n] have "extends h h1" ..
    moreover have "extends h1 (snd (List_fromArray r h1))" by (rule List_fromArray_extends)
    ultimately show ?thesis
      using Pluck Inr n by (simp add: returning_snd extends_trans)
  qed
next
  case (Filter predicate)
  then show ?thesis by (simp add: returning_snd create_from_extends)
next
  case (Grouped size')
  obtain gs h1 where g: "create_all this (grouped_items size' (items_of h this)) h = (gs, h1)"
    by (cases "create_all this (grouped_items size' (items_of h this)) h")
  obtain r h2 where n: "new_array (map JObj gs) h1 = (r, h2)"
    by (cases "new_array (map JObj gs) h1")
  have "extends h h1" using create_all_step [OF extends_refl g] .
  then have "extends h h2" using new_array_step [OF _ n] by simp
  moreover have "extends h2 (snd (List_fromArray r h2))" by (rule List_fromArray_extends)
  ultimately show ?thesis
    using Grouped g n by (simp add: returning_snd extends_trans)
next
  case (GroupBy discriminator)
  obtain gs h1 where g: "group_lists (groupBy_items discriminator (items_of h this)) h = (gs, h1)"
    by (cases "group_lists (groupBy_items discriminator (items_of h this)) h")
  have "extends h h1" using group_lists_step [OF extends_refl g] .
  moreover have "extends h1 (snd (alloc (MapObj gs) h1))" by (rule alloc_extends)
  ultimately show ?thesis
    using GroupBy g by (simp add: returning_snd extends_trans)
next
  case (Partition predicate)
  obtain yes no where p: "partition_items predicate (items_of h this) = (yes, no)"
    by (cases "partition_items predicate (items_of h this)")
  obtain y h1 where y: "create_from this yes h = (y, h1)" by (cases "create_from this yes h")
  obtain n h2 where n: "create_from this no h1 = (n, h2)" by (cases "create_from this no h1")
  have "extends h h1" using create_from_step [OF extends_refl y] .
  then have "extends h h2" using create_from_step [OF _ n] by simp
  moreover have "extends h2 (snd (new_array [JObj y, JObj n] h2))" by (rule new_array_extends)
  ultimately show ?thesis
    using Partition p y n by (simp add: returning_snd extends_trans)
next
  case (Drop n)
  obtain r h1 where s: "array_slice (items_ref h this) (min n (int (length (items_of h this)))) None h = (r, h1)"
    by (cases "array_slice (items_ref h this) (min n (int (length (items_of h this)))) None h")
  have "extends h h1" using array_slice_step [OF extends_refl s] ..
  moreover have "extends h1 (snd (createNew this r h1))" by (rule createNew_extends)
  ultimately show ?thesis
    using Drop s by (simp add: returning_snd Let_def extends_trans)
next
  case (DropRight n)
  obtain r h1 where s: "array_slice (items_ref h this) 0
        (Some (int (length (items_of h this)) - min n (int (length (items_of h this))))) h = (r, h1)"
    by (cases "array_slice (items_ref h this) 0
        (Some (int (length (items_of h this)) - min n (int (length (items_of h this))))) h")
  have "extends h h1" using array_slice_step [OF extends_refl s] ..
  moreover have "extends h1 (snd (createNew this r h1))" by (rule createNew_extends)
  ultimately show ?thesis
    using DropRight s by (simp add: returning_snd Let_def extends_trans)
next
  case (DropWhile predicate)
  obtain r h1 where s: "array_slice (items_ref h this) 0 None h = (r, h1)"
    by (cases "array_slice (items_ref h this) 0 None h")
  from array_slice_step [OF extends_refl s] have 1: "extends h h1" and r: "r = length h" by simp_all
  let ?h2 = "array_write r (dropWhile_items predicate (items_of h1 this)) h1"
  have "extends h ?h2" using 1 r by (intro array_write_extends) simp_all
  moreover have "extends ?h2 (snd (createNew this r ?h2))" by (rule createNew_extends)
  ultimately show ?thesis
    using DropWhile s by (simp add: returning_snd Let_def extends_trans)
next
  case (Take n)
  obtain r h1 where s: "array_slice (items_ref h this) 0 (Some (min n (int (length (items_of h this))))) h = (r, h1)"
    by (cases "array_slice (items_ref h this) 0 (Some (min n (int (length (items_of h this))))) h")
  have "extends h h1" using array_slice_step [OF extends_refl s] ..
  moreover have "extends h1 (snd (createNew this r h1))" by (rule createNew_extends)
  ultimately show ?thesis
    using Take s by (simp add: returning_snd Let_def extends_trans)
next
  case (TakeRight n)
  obtain r h1 where s: "array_slice (items_ref h this) (- min n (int (length (items_of h this)))) None h = (r, h1)"
    by (cases "array_slice (items_ref h this) (- min n (int (length (items_of h this)))) None h")
  have "extends h h1" using array_slice_step [OF extends_refl s] ..
  moreover have "extends h1 (snd (createNew this r h1))" by (rule createNew_extends)
  ultimately show ?thesis
    using TakeRight s by (simp add: returning_snd Let_def extends_trans)
next
  case (TakeWhile predicate)
  then show ?thesis by (simp add: returning_snd create_from_extends)
next
  case Reverse
  obtain r h1 where s: "array_slice (items_ref h this) 0 None h = (r, h1)"
    by (cases "array_slice (items_ref h this) 0 None h")
  from array_slice_step [OF extends_refl s] have 1: "extends h h1" and r: "r = length h" by simp_all
  obtain r' h2 where v: "array_reverse r h1 = (r', h2)" by (cases "array_reverse r h1")
  from array_reverse_step [OF 1 _ v] r have 2: "extends h h2" by simp
  moreover have "extends h2 (snd (createNew this r' h2))" by (rule createNew_extends)
  ultimately show ?thesis
    using Reverse s v by (simp add: returning_snd extends_trans)
next
  case (Slice start end')
  obtain r h1 where s: "array_slice (items_ref h this) start end' h = (r, h1)"
    by (cases "array_slice (items_ref h this) start end' h")
  have "extends h h1" using array_slice_step [OF extends_refl s] ..
  moreover have "extends h1 (snd (createNew this r h1))" by (rule createNew_extends)
  ultimately show ?thesis
    using Slice s by (simp add: returning_snd extends_trans)
next
  case (Sorted opts)
  then show ?thesis
    by (simp add: returning_snd create_from_extends extends_refl split: sum.splits)
next
  case ToList
  then show ?thesis by (simp add: returning_snd List_fromArray_extends)
next
  case ToArray
  then show ?thesis by (simp add: returning_snd cloneArray_extends)
next
  case Clone
  obtain r h1 where s: "array_slice (items_ref h this) 0 None h = (r, h1)"
    by (cases "array_slice (items_ref h this) 0 None h")
  have "extends h h1" using array_slice_step [OF extends_refl s] ..
  moreover have "extends h1 (snd (createNew this r h1))" by (rule createNew_extends)
  ultimately show ?thesis
    using Clone s by (simp add: returning_snd extends_trans)
qed (simp_all add: extends_refl Let_def)


subsection \<open>reverse and clone\<close>

lemma receiverE:
  assumes "receiver h this"
  obtains k a xs where "this < length h" "h ! this = IterableObj k a" "a < length h"
    "h ! a = ArrayObj xs"
  using assms by (auto simp add: receiver_def split: obj.splits)

lemma slice_all: "slice xs 0 None = xs"
  by (simp add: slice_def rel_index_def)

lemma call_Clone:
  assumes "receiver h this"
  shows "\<exists>c. fst (call H Clone this h) = Inr (JObj c)
           \<and> made_from h this (snd (call H Clone this h)) (JObj c) (items_of h this)"
proof -
  from assms obtain k a xs where r: "this < length h" "h ! this = IterableObj k a"
    "a < length h" "h ! a = ArrayObj xs"
    by (rule receiverE)
  show ?thesis
  proof (cases k)
    case ListKind
    with r show ?thesis
      by (simp add: array_slice_def new_array_def alloc_def createNew_def kind_of_this_def
            List_fromArray_def cloneArray_def items_ref_def items_of_def array_of_def
            returning_def receiver_def made_from_def slice_all nth_append)
  next
    case SimpleIterable
    with r show ?thesis
      by (simp add: array_slice_def new_array_def alloc_def createNew_def kind_of_this_def
            items_ref_def items_of_def array_of_def
            returning_def receiver_def made_from_def slice_all nth_append)
  qed
qed

lemma call_Reverse:
  assumes "receiver h this"
  shows "\<exists>c. fst (call H Reverse this h) = Inr (JObj c)
           \<and> made_from h this (snd (call H Reverse this h)) (JObj c) (rev (items_of h this))"
proof -
  from assms obtain k a xs where r: "this < length h" "h ! this = IterableObj k a"
    "a < length h" "h ! a = ArrayObj xs"
    by (rule receiverE)
  show ?thesis
  proof (cases k)
    case ListKind
    with r show ?thesis
      by (simp add: array_slice_def new_array_def alloc_def createNew_def kind_of_this_def
            List_fromArray_def cloneArray_def items_ref_def items_of_def array_of_def
            array_reverse_def
            returning_def receiver_def made_from_def slice_all nth_append)
  next
    case SimpleIterable
    with r show ?thesis
      by (simp add: array_slice_def new_array_def alloc_def createNew_def kind_of_this_def
            items_ref_def items_of_def array_of_def array_reverse_def
            returning_def receiver_def made_from_def slice_all nth_append)
  qed
qed

text \<open>
  C9. A call of the traversal protocol on a receiver leaves every object of the store as
  it was, the receiver and its array among them: the receiver's \<open>items\<close> is the same
  array with the same items after the call. The collection that \<open>reverse\<close> or
  \<open>clone\<close> returns has for \<open>items\<close> an array made during the call, which is not the
  receiver's array, with the items reversed or copied.
\<close>

theorem traversal_leaves_receiver:
  assumes "receiver h this"
  shows "extends h (snd (call H op this h))
     \<and> receiver (snd (call H op this h)) this
     \<and> items_ref (snd (call H op this h)) this = items_ref h this
     \<and> items_of (snd (call H op this h)) this = items_of h this
     \<and> (op = Reverse \<longrightarrow>
           (\<exists>c. fst (call H op this h) = Inr (JObj c)
              \<and> made_from h this (snd (call H op this h)) (JObj c) (rev (items_of h this))))
     \<and> (op = Clone \<longrightarrow>
           (\<exists>c. fst (call H op this h) = Inr (JObj c)
              \<and> made_from h this (snd (call H op this h)) (JObj c) (items_of h this)))"
proof (intro conjI impI)
  have ext: "extends h (snd (call H op this h))" by (rule call_extends)
  then show "extends h (snd (call H op this h))" .
  from ext assms show "items_of (snd (call H op this h)) this = items_of h this"
    by (rule extends_items_of)
  from ext assms show "items_ref (snd (call H op this h)) this = items_ref h this"
    by (simp add: extends_items_ref receiver_this)
  from assms obtain k a xs where r: "this < length h" "h ! this = IterableObj k a"
    "a < length h" "h ! a = ArrayObj xs"
    by (rule receiverE)
  with ext show "receiver (snd (call H op this h)) this"
    using extends_length [OF ext] by (simp add: receiver_def extends_nth)
next
  assume "op = Reverse"
  with assms show "\<exists>c. fst (call H op this h) = Inr (JObj c)
              \<and> made_from h this (snd (call H op this h)) (JObj c) (rev (items_of h this))"
    by (simp only: call_Reverse)
next
  assume "op = Clone"
  with assms show "\<exists>c. fst (call H op this h) = Inr (JObj c)
              \<and> made_from h this (snd (call H op this h)) (JObj c) (items_of h this)"
    by (simp only: call_Clone)
qed

theorem traversal_leaves_receiver_witness:
  "\<forall>H. receiver [ArrayObj [JNum 1, JNum 2, JNum 3], IterableObj ListKind 0] 1
   \<and> call H Reverse 1 [ArrayObj [JNum 1, JNum 2, JNum 3], IterableObj ListKind 0]
       = (Inr (JObj 4),
          [ArrayObj [JNum 1, JNum 2, JNum 3], IterableObj ListKind 0,
           ArrayObj [JNum 3, JNum 2, JNum 1], ArrayObj [JNum 3, JNum 2, JNum 1],
           IterableObj ListKind 3])
   \<and> items_of (snd (call H Reverse 1 [ArrayObj [JNum 1, JNum 2, JNum 3], IterableObj ListKind 0])) 1
       = [JNum 1, JNum 2, JNum 3]
   \<and> items_ref (snd (call H Reverse 1 [ArrayObj [JNum 1, JNum 2, JNum 3], IterableObj ListKind 0])) 4
       = 3
   \<and> call H Clone 1 [ArrayObj [JNum 1, JNum 2, JNum 3], IterableObj SimpleIterable 0]
       = (Inr (JObj 3),
          [ArrayObj [JNum 1, JNum 2, JNum 3], IterableObj SimpleIterable 0,
           ArrayObj [JNum 1, JNum 2, JNum 3], IterableObj SimpleIterable 2])"
proof
  fix H
  let ?h = "[ArrayObj [JNum 1, JNum 2, JNum 3], IterableObj ListKind 0]"
  have r: "receiver ?h 1" by (simp add: receiver_def)
  have c: "call H Reverse 1 ?h
       = (Inr (JObj 4),
          [ArrayObj [JNum 1, JNum 2, JNum 3], IterableObj ListKind 0,
           ArrayObj [JNum 3, JNum 2, JNum 1], ArrayObj [JNum 3, JNum 2, JNum 1],
           IterableObj ListKind 3])"
    by (simp add: array_slice_def new_array_def alloc_def createNew_def kind_of_this_def
          List_fromArray_def cloneArray_def items_ref_def items_of_def array_of_def
          array_reverse_def returning_def slice_all)
  have d: "call H Clone 1 [ArrayObj [JNum 1, JNum 2, JNum 3], IterableObj SimpleIterable 0]
       = (Inr (JObj 3),
          [ArrayObj [JNum 1, JNum 2, JNum 3], IterableObj SimpleIterable 0,
           ArrayObj [JNum 1, JNum 2, JNum 3], IterableObj SimpleIterable 2])"
    by (simp add: array_slice_def new_array_def alloc_def createNew_def kind_of_this_def
          items_ref_def items_of_def array_of_def returning_def slice_all)
  have i: "items_of ?h 1 = [JNum 1, JNum 2, JNum 3]"
    by (simp add: items_of_def items_ref_def array_of_def)
  from traversal_leaves_receiver [OF r, of H Reverse]
  have "items_of (snd (call H Reverse 1 ?h)) 1 = items_of ?h 1" by simp
  with i have k: "items_of (snd (call H Reverse 1 ?h)) 1 = [JNum 1, JNum 2, JNum 3]" by simp
  have m: "items_ref (snd (call H Reverse 1 ?h)) 4 = 3"
    unfolding c by (simp add: items_ref_def)
  from r c k m d
  show "receiver ?h 1
   \<and> call H Reverse 1 ?h
       = (Inr (JObj 4),
          [ArrayObj [JNum 1, JNum 2, JNum 3], IterableObj ListKind 0,
           ArrayObj [JNum 3, JNum 2, JNum 1], ArrayObj [JNum 3, JNum 2, JNum 1],
           IterableObj ListKind 3])
   \<and> items_of (snd (call H Reverse 1 ?h)) 1 = [JNum 1, JNum 2, JNum 3]
   \<and> items_ref (snd (call H Reverse 1 ?h)) 4 = 3
   \<and> call H Clone 1 [ArrayObj [JNum 1, JNum 2, JNum 3], IterableObj SimpleIterable 0]
       = (Inr (JObj 3),
          [ArrayObj [JNum 1, JNum 2, JNum 3], IterableObj SimpleIterable 0,
           ArrayObj [JNum 1, JNum 2, JNum 3], IterableObj SimpleIterable 2])"
    by (intro conjI)
qed
section \<open>The tests of the library\<close>

text \<open>
  The library's tests of Iterable run on the items \<open>1\<close> to \<open>6\<close>; the model gives the
  results they expect.
\<close>

lemma test_sorted_numbers:
  "sorted_items H \<lparr>by = None, localeCompare = False, ignoreCase = False, reverse = False\<rparr>
     (map JNum [5, 4, 1, 6, 2, 4, 3]) = Inr (map JNum [1, 2, 3, 4, 4, 5, 6])"
  by code_simp

lemma test_sorted_strings:
  "sorted_items H \<lparr>by = None, localeCompare = False, ignoreCase = False, reverse = False\<rparr>
     (map JStr [''e'', ''c'', ''ca'', ''A'', ''F'', ''d'', ''b''])
   = Inr (map JStr [''A'', ''F'', ''b'', ''c'', ''ca'', ''d'', ''e''])"
  by code_simp

lemma test_sorted_ignoreCase:
  "sorted_items \<lparr>string_to_number = f, number_to_string = g, upper_case = ascii_upper,
       locale_compare = c\<rparr> \<lparr>by = None, localeCompare = False, ignoreCase = True, reverse = False\<rparr>
     (map JStr [''e'', ''c'', ''ca'', ''A'', ''F'', ''d'', ''b''])
   = Inr (map JStr [''A'', ''b'', ''c'', ''ca'', ''d'', ''e'', ''F''])"
  by code_simp

lemma test_sorted_reverse:
  "sorted_items \<lparr>string_to_number = f, number_to_string = g, upper_case = ascii_upper,
       locale_compare = c\<rparr> \<lparr>by = None, localeCompare = False, ignoreCase = True, reverse = True\<rparr>
     (map JStr [''e'', ''c'', ''ca'', ''A'', ''F'', ''d'', ''b''])
   = Inr (map JStr [''F'', ''e'', ''d'', ''ca'', ''c'', ''b'', ''A''])"
  by code_simp

lemma test_sorted_falsy:
  "sorted_items H \<lparr>by = None, localeCompare = False, ignoreCase = False, reverse = False\<rparr>
     [JStr ''e'', JStr ''c'', JStr '''', JUndefined, JStr ''ca'', JNull, JStr ''A'', JUndefined,
      JStr ''F'', JNull, JStr ''d'', JStr ''b'']
   = Inr [JStr ''A'', JStr ''F'', JStr ''b'', JStr ''c'', JStr ''ca'', JStr ''d'', JStr ''e'',
          JStr '''', JUndefined, JNull, JUndefined, JNull]"
  by code_simp

lemma test_map:
  assumes "string_to_number H ''[object Object]'' = JNaN"
  shows "map_items H (\<lambda>num extra. case num of JNum n \<Rightarrow> if even \<lfloor>n\<rfloor> then JNum (n * - 1) else NOT_MAPPED
                                  | _ \<Rightarrow> NOT_MAPPED)
     (map JNum [1, 2, 3, 4, 5, 6]) = map JNum [- 2, - 4, - 6]"
  by (simp add: map_items_filter loose_eq_NOT_MAPPED [OF assms, unfolded NOT_MAPPED_def]
        NOT_MAPPED_def)

lemma test_drop_take:
  "drop_items 2 (map JNum [1, 2, 3, 4, 5, 6]) = map JNum [3, 4, 5, 6]
   \<and> dropRight 2 (map JNum [1, 2, 3, 4, 5, 6]) = map JNum [1, 2, 3, 4]
   \<and> take_items 2 (map JNum [1, 2, 3, 4, 5, 6]) = map JNum [1, 2]
   \<and> takeRight 2 (map JNum [1, 2, 3, 4, 5, 6]) = map JNum [5, 6]"
  by code_simp

lemma test_grouped:
  "grouped_items (JNum 4) (map JNum [1, 2, 3, 4, 5, 6]) = [map JNum [1, 2, 3, 4], map JNum [5, 6]]"
  by code_simp

lemma test_groupBy:
  "groupBy_items (\<lambda>num extra. case num of JNum n \<Rightarrow> if even \<lfloor>n\<rfloor> then JStr ''even'' else JStr ''odd''
                                   | _ \<Rightarrow> JUndefined)
     (map JNum [1, 2, 3, 4, 5, 6])
   = [(JStr ''odd'', map JNum [1, 3, 5]), (JStr ''even'', map JNum [2, 4, 6])]"
  by code_simp

lemma test_others:
  "dropWhile_items (\<lambda>num extra. JBool (js_lt H num (JNum 4))) (map JNum [1, 2, 3, 4, 5, 6])
     = map JNum [4, 5, 6]
   \<and> takeWhile_items (\<lambda>num extra. JBool (js_lt H num (JNum 4))) (map JNum [1, 2, 3, 4, 5, 6])
     = map JNum [1, 2, 3]
   \<and> partition_items (\<lambda>num extra. case num of JNum n \<Rightarrow> JBool (even \<lfloor>n\<rfloor>) | _ \<Rightarrow> JNull)
       (map JNum [1, 2, 3, 4, 5, 6]) = (map JNum [2, 4, 6], map JNum [1, 3, 5])
   \<and> fold_items (JNum 100) (\<lambda>num acc. case (num, acc) of (JNum n, JNum a) \<Rightarrow> JNum (a + n) | _ \<Rightarrow> JNaN)
       (map JNum [1, 2, 3, 4, 5, 6]) = JNum 121
   \<and> count_items (\<lambda>num extra. JBool (js_lt H num (JNum 4))) (map JNum [1, 2, 3, 4, 5, 6]) = 3
   \<and> find_items (\<lambda>num extra. JBool (strict_eq num (JNum 2))) (map JNum [1, 2, 3, 4, 5, 6]) = JNum 2
   \<and> find_items (\<lambda>num extra. JBool (strict_eq num (JNum 50))) (map JNum [1, 2, 3, 4, 5, 6])
       = JUndefined"
  by code_simp


end
